theory Spec2Isabelle
  imports Complex_Main "HOL-Library.AList" "HOL-Library.Sublist"
begin

section \<open>The client-side response cache\<close>

text \<open>
  The client keeps one module-level \<^verbatim>\<open>Map\<close> from request URL to a cache entry
  \<^verbatim>\<open>{ data, etag, timestamp }\<close>. A JavaScript \<^verbatim>\<open>Map\<close> keeps its keys in insertion
  order, \<^verbatim>\<open>set\<close> on a key that is present replaces the value in place, and
  \<^verbatim>\<open>delete\<close> removes the key. The model is an association list with exactly these
  three operations. The payload is whatever \<^verbatim>\<open>response.json()\<close> produced; its type
  is left open as \<open>'d\<close>. Timestamps are the millisecond counts of \<^verbatim>\<open>Date.now()\<close>.
\<close>

record 'd cache_entry =
  data :: 'd
  etag :: string
  timestamp :: int

type_synonym 'd cache = "(string \<times> 'd cache_entry) list"

definition cache_get :: "'d cache \<Rightarrow> string \<Rightarrow> 'd cache_entry option" where
  "cache_get c url = map_of c url"

definition cache_set :: "string \<Rightarrow> 'd cache_entry \<Rightarrow> 'd cache \<Rightarrow> 'd cache" where
  "cache_set url e c = AList.update url e c"

definition cache_delete :: "string \<Rightarrow> 'd cache \<Rightarrow> 'd cache" where
  "cache_delete url c = AList.delete url c"

text \<open>
  \<^verbatim>\<open>key.includes(pattern)\<close>: the pattern occurs in the key as a contiguous run of
  characters. The empty pattern occurs in every key.
\<close>

primrec str_includes :: "string \<Rightarrow> string \<Rightarrow> bool" where
  "str_includes [] p = (p = [])"
| "str_includes (c # cs) p = (prefix p (c # cs) \<or> str_includes cs p)"

text \<open>
  JavaScript truthiness of a string value: every string but the empty one. An absent
  value (\<^verbatim>\<open>null\<close>, \<^verbatim>\<open>undefined\<close>) is \<open>None\<close> and is falsy as well.
\<close>

definition truthy :: "string \<Rightarrow> bool" where
  "truthy s = (s \<noteq> [])"

definition truthy_opt :: "string option \<Rightarrow> bool" where
  "truthy_opt v = (case v of None \<Rightarrow> False | Some s \<Rightarrow> truthy s)"

text \<open>
  \<^verbatim>\<open>getCachedResponse(url, maxAge = 60)\<close>. The age is
  \<^verbatim>\<open>(Date.now() - cached.timestamp) / 1000\<close>, a division of numbers and not of
  integers, so it is taken in the reals: an entry stored 60001 milliseconds ago is
  older than 60 seconds, one stored 60000 milliseconds ago is not. The function returns
  the entry or
  \<^verbatim>\<open>null\<close>, and deletes an entry it finds expired; the model returns the cache
  along with the answer. The clock reading is the argument \<open>now\<close>.
\<close>

definition age_seconds :: "int \<Rightarrow> int \<Rightarrow> real" where
  "age_seconds now ts = real_of_int (now - ts) / 1000"

definition getCachedResponse ::
  "string \<Rightarrow> real \<Rightarrow> int \<Rightarrow> 'd cache \<Rightarrow> 'd cache_entry option \<times> 'd cache" where
  "getCachedResponse url maxAge now c =
     (case cache_get c url of
        None \<Rightarrow> (None, c)
      | Some cached \<Rightarrow>
          if age_seconds now (timestamp cached) > maxAge
          then (None, cache_delete url c)
          else (Some cached, c))"

definition DEFAULT_MAX_AGE :: real where
  "DEFAULT_MAX_AGE = 60"

text \<open>\<^verbatim>\<open>setCachedResponse(url, data, etag)\<close>, with the clock reading as argument.\<close>

definition setCachedResponse ::
  "string \<Rightarrow> 'd \<Rightarrow> string \<Rightarrow> int \<Rightarrow> 'd cache \<Rightarrow> 'd cache" where
  "setCachedResponse url d e now c =
     cache_set url \<lparr>data = d, etag = e, timestamp = now\<rparr> c"

text \<open>
  \<^verbatim>\<open>clearCache(pattern = null)\<close>. A falsy pattern (absent, or the empty string)
  empties the map. Otherwise the loop \<^verbatim>\<open>for (const [key] of apiCache)\<close> visits the
  keys in order and deletes each key that includes the pattern; deleting the key under
  the iterator does not disturb the keys still to come. \<open>clear_loop\<close> is that loop
  over the keys that are in the map when it starts.
\<close>

fun clear_loop :: "string \<Rightarrow> string list \<Rightarrow> 'd cache \<Rightarrow> 'd cache" where
  "clear_loop p [] c = c"
| "clear_loop p (key # keys) c =
     clear_loop p keys (if str_includes key p then cache_delete key c else c)"

definition clearCache :: "string option \<Rightarrow> 'd cache \<Rightarrow> 'd cache" where
  "clearCache pattern c =
     (case pattern of
        None \<Rightarrow> []
      | Some p \<Rightarrow> if \<not> truthy p then [] else clear_loop p (map fst c) c)"

section \<open>The request helper\<close>

text \<open>
  What \<^verbatim>\<open>apiRequest\<close> reads and writes besides the cache: the browser's
  \<^verbatim>\<open>localStorage\<close> (the token under \<^verbatim>\<open>jwt_token\<close>, the user name under
  \<^verbatim>\<open>username\<close>), the alerts it shows and the view it switches to. Console output
  and the cache counter shown on the page change nothing a later step reads and are left
  out.
\<close>

record 'd client =
  apiCache :: "'d cache"
  localStorage :: "string \<rightharpoonup> string"

datatype ui_event = Alert string string | SwitchView string

definition API_BASE_URL :: string where
  "API_BASE_URL = ''http://localhost:5000/api''"

definition getToken :: "'d client \<Rightarrow> string option" where
  "getToken s = localStorage s ''jwt_token''"

definition removeToken :: "'d client \<Rightarrow> 'd client" where
  "removeToken s = s\<lparr>localStorage := (localStorage s)(''jwt_token'' := None, ''username'' := None)\<rparr>"

text \<open>
  The \<^verbatim>\<open>options\<close> argument and the \<^verbatim>\<open>config\<close> handed to \<^verbatim>\<open>fetch\<close>
  have the same shape: a method, a header object and a body, each possibly absent. The
  field \<^verbatim>\<open>method\<close> is \<open>http_method\<close> here.
\<close>

record request_options =
  http_method :: "string option"
  headers :: "string \<rightharpoonup> string"
  body :: "string option"

text \<open>
  A response as the helper sees it: the status, the headers it asks for with
  \<^verbatim>\<open>response.headers.get\<close>, and what \<^verbatim>\<open>await response.json()\<close> does, which is
  to throw an error with a message (\<open>Inl\<close>) or to produce the payload (\<open>Inr\<close>).
  \<^verbatim>\<open>response.ok\<close> is the status being in the range 200 to 299.
\<close>

record 'd http_response =
  status :: nat
  resp_headers :: "string \<rightharpoonup> string"
  json :: "string + 'd"

definition ok :: "'d http_response \<Rightarrow> bool" where
  "ok r = (200 \<le> status r \<and> status r \<le> 299)"

text \<open>
  \<^verbatim>\<open>await fetch(fullUrl, config)\<close> either rejects with an error or resolves with a
  response. The environment of one call is the network, as a function of the request
  that is sent, and the readings of the clock at the three places where the call reads
  it: the lookup before the request, the lookup on a 304 answer, and the store of a
  fresh answer.
\<close>

datatype 'd fetch_result = Rejects string | Resolves "'d http_response"

record 'd env =
  fetch :: "string \<Rightarrow> request_options \<Rightarrow> 'd fetch_result"
  now_lookup :: int
  now_304 :: int
  now_store :: int

text \<open>
  The value the call resolves to: \<^verbatim>\<open>null\<close> (\<open>None\<close>) or
  \<^verbatim>\<open>{ response, result }\<close>, where the response is the object \<^verbatim>\<open>fetch\<close> gave or,
  on a 304 answer served from the cache, the literal \<^verbatim>\<open>{ status: 200, ok: true }\<close>.
  A run of the call also records the requests it handed to \<^verbatim>\<open>fetch\<close> and the user
  interface events it caused.
\<close>

datatype 'd response_object = Literal nat bool | Fetched "'d http_response"

record 'd run =
  client_after :: "'d client"
  returned :: "('d response_object \<times> 'd) option"
  sent :: "(string \<times> request_options) list"
  ui :: "ui_event list"

text \<open>\<^verbatim>\<open>!options.method || options.method === 'GET'\<close>\<close>

definition is_get :: "request_options \<Rightarrow> bool" where
  "is_get options = (\<not> truthy_opt (http_method options) \<or> http_method options = Some ''GET'')"

text \<open>\<^verbatim>\<open>options.method && ['POST', 'PUT', 'DELETE'].includes(options.method)\<close>\<close>

definition is_mutation :: "request_options \<Rightarrow> bool" where
  "is_mutation options =
     (truthy_opt (http_method options) \<and>
      (case http_method options of
         None \<Rightarrow> False
       | Some m \<Rightarrow> m \<in> set [''POST'', ''PUT'', ''DELETE'']))"

text \<open>
  The headers of the request before the cache is consulted: the content type, then the
  caller's headers spread over it, then the bearer token when there is a truthy one.
\<close>

definition base_headers :: "'d client \<Rightarrow> request_options \<Rightarrow> string \<rightharpoonup> string" where
  "base_headers s options =
     (let h = [''Content-Type'' \<mapsto> ''application/json''] ++ headers options
      in case getToken s of
           None \<Rightarrow> h
         | Some token \<Rightarrow>
             if truthy token then h(''Authorization'' \<mapsto> ''Bearer '' @ token) else h)"

text \<open>
  The lookup before the request, for a GET only: a hit whose ETag is truthy adds the
  conditional header. The lookup may delete an expired entry, so the cache is returned
  too.
\<close>

definition conditional_headers ::
  "'d env \<Rightarrow> string \<Rightarrow> request_options \<Rightarrow> (string \<rightharpoonup> string) \<Rightarrow> 'd cache
     \<Rightarrow> (string \<rightharpoonup> string) \<times> 'd cache" where
  "conditional_headers e fullUrl options h c =
     (if is_get options
      then (case getCachedResponse fullUrl DEFAULT_MAX_AGE (now_lookup e) c of
              (None, c') \<Rightarrow> (h, c')
            | (Some cached, c') \<Rightarrow>
                (if truthy (etag cached) then h(''If-None-Match'' \<mapsto> etag cached) else h, c'))
      else (h, c))"

text \<open>The \<^verbatim>\<open>catch\<close> block: an alert, and \<^verbatim>\<open>null\<close> for the caller.\<close>

definition connection_error ::
  "'d client \<Rightarrow> (string \<times> request_options) list \<Rightarrow> string \<Rightarrow> 'd run" where
  "connection_error s reqs msg =
     \<lparr>client_after = s, returned = None, sent = reqs,
      ui = [Alert (''Connection error: '' @ msg) ''error'']\<rparr>"

text \<open>
  Caching a fresh answer: only for a GET whose response is \<^verbatim>\<open>ok\<close> and whose
  \<^verbatim>\<open>ETag\<close> header is truthy. The \<^verbatim>\<open>max-age\<close> the code reads from
  \<^verbatim>\<open>Cache-Control\<close> is only printed, never stored or used, so it does not appear.
\<close>

definition cache_fresh ::
  "'d env \<Rightarrow> string \<Rightarrow> request_options \<Rightarrow> 'd http_response \<Rightarrow> 'd \<Rightarrow> 'd cache \<Rightarrow> 'd cache" where
  "cache_fresh e fullUrl options response result c =
     (if ok response \<and> is_get options
      then (case resp_headers response ''ETag'' of
              None \<Rightarrow> c
            | Some tag \<Rightarrow>
                if truthy tag then setCachedResponse fullUrl result tag (now_store e) c else c)
      else c)"

text \<open>Clearing after a mutation: the first matching branch of the \<^verbatim>\<open>if / else if\<close>.\<close>

definition invalidate :: "string \<Rightarrow> request_options \<Rightarrow> 'd cache \<Rightarrow> 'd cache" where
  "invalidate endpoint options c =
     (if is_mutation options
      then (if str_includes endpoint ''/books''
            then clearCache (Some ''/statistics'') (clearCache (Some ''/books'') c)
            else if str_includes endpoint ''/borrow-records''
            then clearCache (Some ''/statistics'')
                   (clearCache (Some ''/books'') (clearCache (Some ''/borrow-records'') c))
            else c)
      else c)"

text \<open>
  The part of the \<^verbatim>\<open>try\<close> block from \<^verbatim>\<open>await response.json()\<close> on: a body that
  does not parse goes to the \<^verbatim>\<open>catch\<close> block; a 401 shows the alert, removes the
  token, empties the cache, switches to the login view and returns \<^verbatim>\<open>null\<close>; any
  other answer is cached and invalidated as above and returned.
\<close>

definition after_json ::
  "'d env \<Rightarrow> 'd client \<Rightarrow> (string \<times> request_options) list \<Rightarrow> string \<Rightarrow> string
     \<Rightarrow> request_options \<Rightarrow> 'd http_response \<Rightarrow> 'd run" where
  "after_json e s reqs endpoint fullUrl options response =
     (case json response of
        Inl msg \<Rightarrow> connection_error s reqs msg
      | Inr result \<Rightarrow>
          if status response = 401
          then \<lparr>client_after = (removeToken s)\<lparr>apiCache := clearCache None (apiCache s)\<rparr>,
                returned = None, sent = reqs,
                ui = [Alert ''Session expired. Please login again.'' ''error'',
                      SwitchView ''login'']\<rparr>
          else \<lparr>client_after =
                  s\<lparr>apiCache :=
                      invalidate endpoint options
                        (cache_fresh e fullUrl options response result (apiCache s))\<rparr>,
                returned = Some (Fetched response, result), sent = reqs, ui = []\<rparr>)"

text \<open>
  The first part of \<^verbatim>\<open>apiRequest(endpoint, options = {})\<close>, up to the
  \<^verbatim>\<open>try\<close>: the full URL, the \<^verbatim>\<open>config\<close> (the options with the headers
  replaced), and the cache as the lookup leaves it.
\<close>

definition build_request ::
  "'d env \<Rightarrow> 'd client \<Rightarrow> string \<Rightarrow> request_options \<Rightarrow> string \<times> request_options \<times> 'd cache" where
  "build_request e s endpoint options =
     (let fullUrl = API_BASE_URL @ endpoint;
          (h, c1) = conditional_headers e fullUrl options (base_headers s options) (apiCache s)
      in (fullUrl, options\<lparr>headers := h\<rparr>, c1))"

text \<open>
  The \<^verbatim>\<open>try\<close> block. The request is sent in every case. A 304 answer looks the
  URL up again and, on a hit, returns the cached payload under the literal response; on
  a miss it goes on to parse the body like any other answer. The model is one call on
  its own: while the call waits for the network, time passes (the three clock readings)
  and nothing else touches the cache or the storage.
\<close>

definition apiRequest ::
  "'d env \<Rightarrow> 'd client \<Rightarrow> string \<Rightarrow> request_options \<Rightarrow> 'd run" where
  "apiRequest e s endpoint options =
     (case build_request e s endpoint options of
        (fullUrl, config, c1) \<Rightarrow>
          (let reqs = [(fullUrl, config)]
           in case fetch e fullUrl config of
                Rejects msg \<Rightarrow> connection_error (s\<lparr>apiCache := c1\<rparr>) reqs msg
              | Resolves response \<Rightarrow>
                  if status response = 304
                  then (case getCachedResponse fullUrl DEFAULT_MAX_AGE (now_304 e) c1 of
                          (Some cached, c2) \<Rightarrow>
                            \<lparr>client_after = s\<lparr>apiCache := c2\<rparr>,
                             returned = Some (Literal 200 True, data cached),
                             sent = reqs, ui = []\<rparr>
                        | (None, c2) \<Rightarrow>
                            after_json e (s\<lparr>apiCache := c2\<rparr>) reqs endpoint fullUrl
                              options response)
                  else after_json e (s\<lparr>apiCache := c1\<rparr>) reqs endpoint fullUrl
                         options response))"

section \<open>The inventory rules of the server\<close>

text \<open>
  Modelled from the spec: the server that keeps the books and the borrow records, and
  with it every inventory operation, is not among the sources at hand; the client only
  calls it over HTTP. The data model and the operations below follow the
  specification's sections on the data model and on the inventory rules engine.
\<close>

text \<open>
  Modelled from the spec: a book has an identifier, title, author, ISBN, the number of
  copies owned (\<open>quantity\<close>), the number of copies not on loan (\<open>available\<close>) and a
  creation timestamp.
\<close>

record book =
  book_id :: nat
  title :: string
  author :: string
  isbn :: string
  quantity :: int
  available :: int
  created_at :: int

text \<open>
  Modelled from the spec: a borrow record has an identifier, the book it refers to, the
  borrower's name and email, the borrow timestamp, the return timestamp (absent until
  returned) and a status, borrowed or returned.
\<close>

datatype loan_status = Borrowed | Returned

record borrow_record =
  record_id :: nat
  book_ref :: nat
  borrower_name :: string
  borrower_email :: string
  borrow_date :: int
  return_date :: "int option"
  loan_status :: loan_status

text \<open>
  Modelled from the spec: the resource store holds the two collections. Identifiers are
  unique; the specification does not say how they are chosen, so the store hands them
  out from two counters.
\<close>

record store =
  books :: "book list"
  borrow_records :: "borrow_record list"
  next_book_id :: nat
  next_record_id :: nat

definition empty_store :: store where
  "empty_store = \<lparr>books = [], borrow_records = [], next_book_id = 1, next_record_id = 1\<rparr>"

text \<open>Modelled from the spec: the error taxonomy of the inventory operations.\<close>

datatype inventory_error =
  ValidationError | NotFound | DuplicateISBN | OutOfStock | Conflict | AlreadyReturned

text \<open>
  Modelled from the spec: the ISBN is a numeric string of a required fixed length, and a
  borrower's name or email may be malformed. The length and what counts as malformed are
  not given, so they are parameters.
\<close>

record policy =
  isbn_length :: nat
  malformed :: "string \<Rightarrow> bool"

definition is_digit :: "char \<Rightarrow> bool" where
  "is_digit ch = (ch \<in> set ''0123456789'')"

definition valid_isbn :: "policy \<Rightarrow> string \<Rightarrow> bool" where
  "valid_isbn p i = (length i = isbn_length p \<and> list_all is_digit i)"

definition find_book :: "store \<Rightarrow> nat \<Rightarrow> book option" where
  "find_book st bid = find (\<lambda>b. book_id b = bid) (books st)"

definition find_record :: "store \<Rightarrow> nat \<Rightarrow> borrow_record option" where
  "find_record st rid = find (\<lambda>r. record_id r = rid) (borrow_records st)"

text \<open>
  Modelled from the spec: the borrowed count of a book is the number of borrow records
  with status borrowed that refer to it.
\<close>

definition borrowedCount :: "store \<Rightarrow> nat \<Rightarrow> int" where
  "borrowedCount st bid =
     int (length (filter (\<lambda>r. book_ref r = bid \<and> loan_status r = Borrowed) (borrow_records st)))"

definition update_book :: "nat \<Rightarrow> (book \<Rightarrow> book) \<Rightarrow> book list \<Rightarrow> book list" where
  "update_book bid f bs = map (\<lambda>b. if book_id b = bid then f b else b) bs"

text \<open>
  Modelled from the spec: \<open>createBook\<close> fails with \<open>ValidationError\<close> if the ISBN is
  not exactly the required numeric length or the quantity is negative, and with
  \<open>DuplicateISBN\<close> if the ISBN is already present. A new book has no borrow records,
  so by the data model's equation all its copies are available.
\<close>

definition createBook ::
  "policy \<Rightarrow> string \<Rightarrow> string \<Rightarrow> string \<Rightarrow> int \<Rightarrow> int \<Rightarrow> store \<Rightarrow> inventory_error + store" where
  "createBook p t a i q now st =
     (if \<not> valid_isbn p i \<or> q < 0 then Inl ValidationError
      else if i \<in> set (map isbn (books st)) then Inl DuplicateISBN
      else Inr (st\<lparr>books := books st @
                      [\<lparr>book_id = next_book_id st, title = t, author = a, isbn = i,
                        quantity = q, available = q, created_at = now\<rparr>],
                    next_book_id := Suc (next_book_id st)\<rparr>))"

text \<open>
  Modelled from the spec: \<open>updateBook\<close> fails with \<open>ValidationError\<close> if the new
  quantity is below \<open>quantity - available\<close>; otherwise it sets the quantity and
  recomputes \<open>available\<close> as the new quantity less the borrowed count. An unknown
  identifier is \<open>NotFound\<close>.
\<close>

definition updateBook :: "nat \<Rightarrow> int \<Rightarrow> store \<Rightarrow> inventory_error + store" where
  "updateBook bid newQuantity st =
     (case find_book st bid of
        None \<Rightarrow> Inl NotFound
      | Some b \<Rightarrow>
          if newQuantity < quantity b - available b then Inl ValidationError
          else Inr (st\<lparr>books := update_book bid
                          (\<lambda>b. b\<lparr>quantity := newQuantity,
                                 available := newQuantity - borrowedCount st bid\<rparr>)
                          (books st)\<rparr>))"

text \<open>
  Modelled from the spec: \<open>borrow\<close> fails with \<open>ValidationError\<close> if the borrower's
  name or email is empty or malformed, with \<open>NotFound\<close> if the book is unknown and with
  \<open>OutOfStock\<close> if \<open>available \<le> 0\<close>; otherwise it decrements \<open>available\<close> by one
  and creates a borrow record with status borrowed, in one step.
\<close>

definition borrow ::
  "policy \<Rightarrow> nat \<Rightarrow> string \<Rightarrow> string \<Rightarrow> int \<Rightarrow> store \<Rightarrow> inventory_error + store" where
  "borrow p bid name email now st =
     (if name = [] \<or> email = [] \<or> malformed p name \<or> malformed p email
      then Inl ValidationError
      else case find_book st bid of
             None \<Rightarrow> Inl NotFound
           | Some b \<Rightarrow>
               if available b \<le> 0 then Inl OutOfStock
               else Inr (st\<lparr>books := update_book bid
                               (\<lambda>b. b\<lparr>available := available b - 1\<rparr>) (books st),
                             borrow_records := borrow_records st @
                               [\<lparr>record_id = next_record_id st, book_ref = bid,
                                 borrower_name = name, borrower_email = email,
                                 borrow_date = now, return_date = None,
                                 loan_status = Borrowed\<rparr>],
                             next_record_id := Suc (next_record_id st)\<rparr>))"

text \<open>
  Modelled from the spec: \<open>returnBook\<close> fails with \<open>NotFound\<close> if the record is
  unknown and with \<open>AlreadyReturned\<close> if its status is returned; otherwise it sets the
  status to returned, stamps the return time and increments the related book's
  \<open>available\<close> by one.
\<close>

definition returnBook :: "nat \<Rightarrow> int \<Rightarrow> store \<Rightarrow> inventory_error + store" where
  "returnBook rid now st =
     (case find_record st rid of
        None \<Rightarrow> Inl NotFound
      | Some r \<Rightarrow>
          if loan_status r = Returned then Inl AlreadyReturned
          else Inr (st\<lparr>borrow_records :=
                          map (\<lambda>x. if record_id x = rid
                                    then x\<lparr>loan_status := Returned, return_date := Some now\<rparr>
                                    else x) (borrow_records st),
                        books := update_book (book_ref r)
                                   (\<lambda>b. b\<lparr>available := available b + 1\<rparr>) (books st)\<rparr>))"

text \<open>
  Modelled from the spec: \<open>deleteBook\<close> fails with \<open>Conflict\<close> if any borrow record
  of the book has status borrowed; otherwise it removes the book. An unknown identifier
  is \<open>NotFound\<close>.
\<close>

definition deleteBook :: "nat \<Rightarrow> store \<Rightarrow> inventory_error + store" where
  "deleteBook bid st =
     (case find_book st bid of
        None \<Rightarrow> Inl NotFound
      | Some b \<Rightarrow>
          if borrowedCount st bid > 0 then Inl Conflict
          else Inr (st\<lparr>books := filter (\<lambda>b. book_id b \<noteq> bid) (books st)\<rparr>))"

text \<open>
  Modelled from the spec: a sequence of inventory operations. Each operation is one
  request; one that fails leaves the store as it was, and the next one runs on.
\<close>

datatype inventory_op =
    CreateBook string string string int int
  | UpdateBook nat int
  | Borrow nat string string int
  | ReturnBook nat int
  | DeleteBook nat

fun apply_op :: "policy \<Rightarrow> inventory_op \<Rightarrow> store \<Rightarrow> inventory_error + store" where
  "apply_op p (CreateBook t a i q now) st = createBook p t a i q now st"
| "apply_op p (UpdateBook bid q) st = updateBook bid q st"
| "apply_op p (Borrow bid name email now) st = borrow p bid name email now st"
| "apply_op p (ReturnBook rid now) st = returnBook rid now st"
| "apply_op p (DeleteBook bid) st = deleteBook bid st"

definition step :: "policy \<Rightarrow> store \<Rightarrow> inventory_op \<Rightarrow> store" where
  "step p st op = (case apply_op p op st of Inl err \<Rightarrow> st | Inr st' \<Rightarrow> st')"

definition run_ops :: "policy \<Rightarrow> inventory_op list \<Rightarrow> store \<Rightarrow> store" where
  "run_ops p ops st = foldl (step p) st ops"

text \<open>
  The invariant that the operations keep: the data model's equation
  \<open>available = quantity - borrowed count\<close> with \<open>available\<close> not negative,
  identifiers unique and below the counters, and every record on loan referring to a
  book that exists.
\<close>

definition consistent :: "store \<Rightarrow> bool" where
  "consistent st \<longleftrightarrow>
     (\<forall>b \<in> set (books st). available b = quantity b - borrowedCount st (book_id b)
                            \<and> 0 \<le> available b \<and> book_id b < next_book_id st)
     \<and> distinct (map book_id (books st))
     \<and> distinct (map record_id (borrow_records st))
     \<and> (\<forall>r \<in> set (borrow_records st).
           record_id r < next_record_id st \<and> book_ref r < next_book_id st
           \<and> (loan_status r = Borrowed \<longrightarrow> book_ref r \<in> book_id ` set (books st)))"

section \<open>Example clients, requests and networks\<close>

text \<open>
  A client that is logged in and holds three cache entries stored at time 1000 (in
  milliseconds), the requests the pages make, and networks that give one fixed answer.
  The payload is the text of the JSON body.
\<close>

definition books_url :: string where
  "books_url = ''http://localhost:5000/api/books''"

definition statistics_url :: string where
  "statistics_url = ''http://localhost:5000/api/statistics''"

definition records_url :: string where
  "records_url = ''http://localhost:5000/api/borrow-records''"

definition books_entry :: "string cache_entry" where
  "books_entry = \<lparr>data = ''{books: 2}'', etag = ''v1'', timestamp = 1000\<rparr>"

definition statistics_entry :: "string cache_entry" where
  "statistics_entry = \<lparr>data = ''{titles: 2}'', etag = ''s1'', timestamp = 1000\<rparr>"

definition records_entry :: "string cache_entry" where
  "records_entry = \<lparr>data = ''{records: 1}'', etag = ''r1'', timestamp = 1000\<rparr>"

definition logged_in :: "string client" where
  "logged_in =
     \<lparr>apiCache = [(books_url, books_entry), (statistics_url, statistics_entry),
                  (records_url, records_entry)],
      localStorage = [''jwt_token'' \<mapsto> ''tok'', ''username'' \<mapsto> ''admin'']\<rparr>"

definition get_options :: request_options where
  "get_options = \<lparr>http_method = None, headers = Map.empty, body = None\<rparr>"

definition post_options :: request_options where
  "post_options = \<lparr>http_method = Some ''POST'', headers = Map.empty, body = Some ''{}''\<rparr>"

definition answers :: "'d fetch_result \<Rightarrow> int \<Rightarrow> 'd env" where
  "answers r t = \<lparr>fetch = (\<lambda>url config. r), now_lookup = t, now_304 = t + 100, now_store = t + 200\<rparr>"

definition not_modified :: "string http_response" where
  "not_modified =
     \<lparr>status = 304, resp_headers = [''ETag'' \<mapsto> ''v1''],
      json = Inl ''Unexpected end of JSON input''\<rparr>"

definition fresh_list :: "string http_response" where
  "fresh_list =
     \<lparr>status = 200, resp_headers = [''ETag'' \<mapsto> ''v2''], json = Inr ''{books: 3}''\<rparr>"

definition created :: "string http_response" where
  "created = \<lparr>status = 201, resp_headers = Map.empty, json = Inr ''{success: true}''\<rparr>"

definition unauthorized_no_json :: "string http_response" where
  "unauthorized_no_json =
     \<lparr>status = 401, resp_headers = Map.empty, json = Inl ''Unexpected token <''\<rparr>"

definition tagged_no_json :: "string http_response" where
  "tagged_no_json =
     \<lparr>status = 200, resp_headers = [''ETag'' \<mapsto> ''v2''],
      json = Inl ''Unexpected end of JSON input''\<rparr>"

definition delete_options :: request_options where
  "delete_options = \<lparr>http_method = Some ''DELETE'', headers = Map.empty, body = None\<rparr>"

definition no_content :: "string http_response" where
  "no_content =
     \<lparr>status = 204, resp_headers = Map.empty, json = Inl ''Unexpected end of JSON input''\<rparr>"

definition conflict :: "string http_response" where
  "conflict = \<lparr>status = 409, resp_headers = Map.empty, json = Inr ''{success: false}''\<rparr>"

definition demo_policy :: policy where
  "demo_policy = \<lparr>isbn_length = 13, malformed = (\<lambda>s. CHR '' '' \<in> set s)\<rparr>"

definition demo_ops :: "inventory_op list" where
  "demo_ops =
     [CreateBook ''Emma'' ''Austen'' ''9780141439587'' 2 100,
      Borrow 1 ''ann'' ''ann@example.org'' 200,
      Borrow 1 ''bob'' ''bob@example.org'' 300,
      Borrow 1 ''cy'' ''cy@example.org'' 400,
      ReturnBook 1 500,
      UpdateBook 1 5]"

lemmas api_defs =
  apiRequest_def build_request_def conditional_headers_def base_headers_def after_json_def
  connection_error_def cache_fresh_def invalidate_def getCachedResponse_def
  setCachedResponse_def clearCache_def cache_get_def cache_set_def cache_delete_def
  getToken_def removeToken_def is_get_def is_mutation_def truthy_def truthy_opt_def ok_def
  age_seconds_def DEFAULT_MAX_AGE_def API_BASE_URL_def Let_def

lemmas example_defs =
  books_url_def statistics_url_def records_url_def books_entry_def statistics_entry_def
  records_entry_def logged_in_def get_options_def post_options_def
  answers_def not_modified_def fresh_list_def created_def
  unauthorized_no_json_def tagged_no_json_def delete_options_def no_content_def conflict_def

section \<open>Properties of the cache operations\<close>

lemma str_includes_iff: "str_includes s p \<longleftrightarrow> (\<exists>u v. s = u @ p @ v)"
proof (induction s)
  case Nil
  then show ?case by auto
next
  case (Cons c cs)
  show ?case
  proof
    assume "str_includes (c # cs) p"
    then consider "prefix p (c # cs)" | "str_includes cs p" by auto
    then show "\<exists>u v. c # cs = u @ p @ v"
    proof cases
      case 1
      then obtain v where "c # cs = p @ v" by (auto simp: prefix_def)
      then have "c # cs = [] @ p @ v" by simp
      then show ?thesis by blast
    next
      case 2
      with Cons.IH obtain u v where "cs = u @ p @ v" by blast
      then have "c # cs = (c # u) @ p @ v" by simp
      then show ?thesis by blast
    qed
  next
    assume "\<exists>u v. c # cs = u @ p @ v"
    then obtain u v where eq: "c # cs = u @ p @ v" by blast
    show "str_includes (c # cs) p"
    proof (cases u)
      case Nil
      with eq have "prefix p (c # cs)" by (simp add: prefix_def)
      then show ?thesis by simp
    next
      case (Cons a u')
      with eq have "cs = u' @ p @ v" by simp
      with Cons.IH have "str_includes cs p" by blast
      then show ?thesis by simp
    qed
  qed
qed

lemma str_includes_empty: "str_includes s []"
proof -
  have "s = [] @ [] @ s" by simp
  then show ?thesis unfolding str_includes_iff by blast
qed

lemma map_of_clear_loop:
  "map_of (clear_loop p keys c) k =
     (if k \<in> set keys \<and> str_includes k p then None else map_of c k)"
proof (induction keys arbitrary: c)
  case Nil
  then show ?case by simp
next
  case (Cons key keys)
  show ?case
    by (auto simp: Cons.IH cache_delete_def delete_conv')
qed

lemma cache_get_clearCache:
  "cache_get (clearCache (Some p) c) k =
     (if str_includes k p then None else cache_get c k)"
proof (cases "truthy p")
  case True
  have "k \<notin> set (map fst c) \<Longrightarrow> map_of c k = None"
    by (simp add: map_of_eq_None_iff)
  with True show ?thesis
    by (auto simp: clearCache_def cache_get_def map_of_clear_loop)
next
  case False
  then have "p = []" by (simp add: truthy_def)
  then show ?thesis
    by (simp add: clearCache_def cache_get_def truthy_def str_includes_empty)
qed

lemma cache_get_clearCache_all: "cache_get (clearCache None c) k = None"
  by (simp add: clearCache_def cache_get_def)

lemma clear_loop_filter:
  "clear_loop p keys c = filter (\<lambda>(k, e). \<not> (k \<in> set keys \<and> str_includes k p)) c"
proof (induction keys arbitrary: c)
  case Nil
  then show ?case by simp
next
  case (Cons key keys)
  show ?case
    by (auto simp: Cons.IH cache_delete_def AList.delete_eq intro!: filter_cong)
qed

lemma clearCache_filter:
  "clearCache (Some p) c = filter (\<lambda>(k, e). \<not> str_includes k p) c"
proof (cases "truthy p")
  case True
  have "filter (\<lambda>(k, e). \<not> (k \<in> set (map fst c) \<and> str_includes k p)) c
        = filter (\<lambda>(k, e). \<not> str_includes k p) c"
    by (rule filter_cong) force+
  with True show ?thesis by (simp add: clearCache_def clear_loop_filter)
next
  case False
  then show ?thesis
    by (simp add: clearCache_def truthy_def str_includes_empty)
qed


section \<open>Properties of the request helper\<close>

lemma getCachedResponse_fresh:
  "cache_get c url = Some x \<Longrightarrow> age_seconds now (timestamp x) \<le> m
     \<Longrightarrow> getCachedResponse url m now c = (Some x, c)"
  by (simp add: getCachedResponse_def)


lemma getCachedResponse_absent:
  "cache_get c url = None \<Longrightarrow> getCachedResponse url m now c = (None, c)"
  by (simp add: getCachedResponse_def)

lemma getCachedResponse_cache:
  "snd (getCachedResponse url m now c) = c \<or> snd (getCachedResponse url m now c) = cache_delete url c"
  by (simp add: getCachedResponse_def split: option.splits)

lemma getCachedResponse_hit:
  "getCachedResponse url m now c = (Some x, c') \<Longrightarrow> c' = c \<and> cache_get c url = Some x"
  by (auto simp: getCachedResponse_def split: option.splits if_splits)

lemma cache_get_delete: "cache_get (cache_delete url c) k = (if k = url then None else cache_get c k)"
  by (simp add: cache_get_def cache_delete_def delete_conv')

lemma cache_get_set: "cache_get (cache_set url v c) k = (if k = url then Some v else cache_get c k)"
  by (simp add: cache_get_def cache_set_def update_conv')

lemma mutation_not_get: "is_mutation options \<Longrightarrow> \<not> is_get options"
  by (auto simp: is_mutation_def is_get_def split: option.splits)

lemma ok_status: "ok r \<Longrightarrow> status r \<noteq> 304 \<and> status r \<noteq> 401"
  by (auto simp: ok_def)

lemma build_request_not_get:
  "\<not> is_get options \<Longrightarrow> build_request e s endpoint options =
      (API_BASE_URL @ endpoint, options\<lparr>headers := base_headers s options\<rparr>, apiCache s)"
  by (simp add: build_request_def conditional_headers_def Let_def)

lemma build_request_cache:
  assumes "build_request e s endpoint options = (fullUrl, config, c1)"
  shows "fullUrl = API_BASE_URL @ endpoint \<and> (c1 = apiCache s \<or> c1 = cache_delete fullUrl (apiCache s))"
  using assms getCachedResponse_cache [of "API_BASE_URL @ endpoint" DEFAULT_MAX_AGE "now_lookup e" "apiCache s"]
  by (auto simp: build_request_def conditional_headers_def Let_def split: prod.splits option.splits if_splits)

lemma apiRequest_parsed:
  assumes "build_request e s endpoint options = (fullUrl, config, c1)"
    and "fetch e fullUrl config = Resolves response"
    and "status response \<noteq> 304"
  shows "apiRequest e s endpoint options =
           after_json e (s\<lparr>apiCache := c1\<rparr>) [(fullUrl, config)] endpoint fullUrl options response"
  using assms by (simp add: apiRequest_def)

lemma invalidate_books:
  assumes "is_mutation options" "str_includes endpoint ''/books''"
  shows "cache_get (invalidate endpoint options c) k =
           (if str_includes k ''/books'' \<or> str_includes k ''/statistics'' then None else cache_get c k)"
  using assms by (simp add: invalidate_def cache_get_clearCache)

lemma invalidate_borrow_records:
  assumes "is_mutation options" "\<not> str_includes endpoint ''/books''"
    "str_includes endpoint ''/borrow-records''"
  shows "cache_get (invalidate endpoint options c) k =
           (if str_includes k ''/borrow-records'' \<or> str_includes k ''/books''
               \<or> str_includes k ''/statistics'' then None else cache_get c k)"
  using assms by (simp add: invalidate_def cache_get_clearCache)


lemma sent_apiRequest:
  assumes "build_request e s endpoint options = (fullUrl, config, c1)"
  shows "sent (apiRequest e s endpoint options) = [(fullUrl, config)]"
  using assms
  by (simp add: apiRequest_def after_json_def connection_error_def Let_def
      split: prod.splits fetch_result.splits option.splits sum.splits)


text \<open>
  What the call does with an answer whose body parses: a fresh GET is stored and handed
  to the caller; an answer that is neither 304 nor 401 is handed to the caller with no
  alert; a mutation with an \<^verbatim>\<open>ok\<close> answer purges the entries of its collection; a
  401 ends the session.
\<close>

lemma fresh_get_run:
  assumes "build_request e s endpoint options = (fullUrl, config, c1)"
    and "is_get options"
    and "fetch e fullUrl config = Resolves response"
    and "ok response"
    and "json response = Inr result"
    and "resp_headers response ''ETag'' = Some tag"
    and "truthy tag"
  shows "apiRequest e s endpoint options =
           \<lparr>client_after =
              s\<lparr>apiCache :=
                  cache_set fullUrl \<lparr>data = result, etag = tag, timestamp = now_store e\<rparr> c1\<rparr>,
            returned = Some (Fetched response, result),
            sent = [(fullUrl, config)], ui = []\<rparr>"
proof -
  from assms(4) have st: "status response \<noteq> 304" "status response \<noteq> 401"
    using ok_status by auto
  from assms(2) have nm: "\<not> is_mutation options" using mutation_not_get by blast
  have "apiRequest e s endpoint options =
      after_json e (s\<lparr>apiCache := c1\<rparr>) [(fullUrl, config)] endpoint fullUrl options response"
    using assms(1,3) st(1) by (rule apiRequest_parsed)
  then show ?thesis
    using assms(2,4-7) st(2) nm
    by (simp add: after_json_def cache_fresh_def invalidate_def setCachedResponse_def)
qed


lemma parsed_answer_returned:
  assumes "build_request e s endpoint options = (fullUrl, config, c1)"
    and "fetch e fullUrl config = Resolves response"
    and "json response = Inr result"
    and "status response \<noteq> 304" "status response \<noteq> 401"
  shows "returned (apiRequest e s endpoint options) = Some (Fetched response, result)
         \<and> ui (apiRequest e s endpoint options) = []"
  using assms by (simp add: apiRequest_def after_json_def)

lemma parsed_mutation_invalidates:
  assumes "is_mutation options"
    and "build_request e s endpoint options = (fullUrl, config, c1)"
    and "fetch e fullUrl config = Resolves response"
    and "ok response"
    and "json response = Inr result"
  shows "returned (apiRequest e s endpoint options) = Some (Fetched response, result)
    \<and> (str_includes endpoint ''/books'' \<longrightarrow>
         (\<forall>k. str_includes k ''/books'' \<or> str_includes k ''/statistics''
              \<longrightarrow> cache_get (apiCache (client_after (apiRequest e s endpoint options))) k = None))
    \<and> (str_includes endpoint ''/borrow-records'' \<and> \<not> str_includes endpoint ''/books'' \<longrightarrow>
         (\<forall>k. str_includes k ''/borrow-records'' \<or> str_includes k ''/books''
                \<or> str_includes k ''/statistics''
              \<longrightarrow> cache_get (apiCache (client_after (apiRequest e s endpoint options))) k = None))"
proof -
  let ?run = "apiRequest e s endpoint options"
  from assms(4) have st: "status response \<noteq> 304" "status response \<noteq> 401"
    using ok_status by auto
  from assms(1) have ng: "\<not> is_get options" by (rule mutation_not_get)
  have run: "?run = after_json e (s\<lparr>apiCache := c1\<rparr>) [(fullUrl, config)] endpoint fullUrl
                      options response"
    using assms(2,3) st(1) by (rule apiRequest_parsed)
  have ret: "returned ?run = Some (Fetched response, result)"
    using assms(5) st(2) by (simp add: run after_json_def)
  have cache: "apiCache (client_after ?run) = invalidate endpoint options c1"
    using assms(5) st(2) ng by (simp add: run after_json_def cache_fresh_def)
  have books: "str_includes endpoint ''/books'' \<longrightarrow>
         (\<forall>k. str_includes k ''/books'' \<or> str_includes k ''/statistics''
              \<longrightarrow> cache_get (apiCache (client_after ?run)) k = None)"
    unfolding cache by (simp add: invalidate_books [OF assms(1)])
  have recs: "str_includes endpoint ''/borrow-records'' \<and> \<not> str_includes endpoint ''/books'' \<longrightarrow>
         (\<forall>k. str_includes k ''/borrow-records'' \<or> str_includes k ''/books''
                \<or> str_includes k ''/statistics''
              \<longrightarrow> cache_get (apiCache (client_after ?run)) k = None)"
    unfolding cache by (simp add: invalidate_borrow_records [OF assms(1)])
  from ret books recs show ?thesis by blast
qed

lemma parsed_unauthorized_clears_everything:
  assumes "build_request e s endpoint options = (fullUrl, config, c1)"
    and "fetch e fullUrl config = Resolves response"
    and "status response = 401"
    and "json response = Inr result"
  shows "apiCache (client_after (apiRequest e s endpoint options)) = []
    \<and> getToken (client_after (apiRequest e s endpoint options)) = None
    \<and> localStorage (client_after (apiRequest e s endpoint options)) ''username'' = None
    \<and> returned (apiRequest e s endpoint options) = None
    \<and> ui (apiRequest e s endpoint options) =
         [Alert ''Session expired. Please login again.'' ''error'', SwitchView ''login'']"
  using assms
  by (simp add: apiRequest_def after_json_def removeToken_def getToken_def clearCache_def)

section \<open>The inventory invariant\<close>

lemma consistent_empty: "consistent empty_store"
  by (simp add: consistent_def empty_store_def)

lemma find_Some_set: "find P xs = Some x \<Longrightarrow> x \<in> set xs \<and> P x"
  by (induction xs) (auto split: if_splits)

lemma borrowedCount_nonneg: "0 \<le> borrowedCount st bid"
  by (simp add: borrowedCount_def)

lemma consistent_create:
  assumes "consistent st" "createBook p t a i q now st = Inr st'"
  shows "consistent st'"
proof -
  have fresh: "borrowedCount st (next_book_id st) = 0"
    using assms(1) by (auto simp: consistent_def borrowedCount_def filter_empty_conv)
  from assms(2) have st': "st' = st\<lparr>books := books st @
                  [\<lparr>book_id = next_book_id st, title = t, author = a, isbn = i,
                    quantity = q, available = q, created_at = now\<rparr>],
                 next_book_id := Suc (next_book_id st)\<rparr>" and q: "0 \<le> q"
    by (auto simp: createBook_def split: if_splits)
  have bc: "\<And>bid. borrowedCount st' bid = borrowedCount st bid"
    by (simp add: st' borrowedCount_def)
  show ?thesis
    using assms(1) fresh q unfolding consistent_def bc
    by (auto simp: st' less_Suc_eq)
qed


lemma set_update_book:
  "b' \<in> set (update_book bid f bs) \<Longrightarrow>
     (\<exists>b \<in> set bs. (book_id b = bid \<and> b' = f b) \<or> (book_id b \<noteq> bid \<and> b' = b))"
  by (auto simp: update_book_def)

lemma map_book_id_update_book:
  "(\<And>b. book_id (f b) = book_id b) \<Longrightarrow> map book_id (update_book bid f bs) = map book_id bs"
  by (induction bs) (simp_all add: update_book_def)

lemma distinct_same_key:
  "distinct (map f xs) \<Longrightarrow> x \<in> set xs \<Longrightarrow> y \<in> set xs \<Longrightarrow> f x = f y \<Longrightarrow> x = y"
  by (auto simp: distinct_map dest: inj_onD)

lemma find_book_unique:
  assumes "distinct (map book_id (books st))" "find_book st bid = Some b"
    "b0 \<in> set (books st)" "book_id b0 = bid"
  shows "b0 = b"
proof -
  from assms(2) have "b \<in> set (books st)" "book_id b = bid"
    using find_Some_set [of "\<lambda>b. book_id b = bid" "books st" b] by (auto simp: find_book_def)
  with assms(1,3,4) show ?thesis
    using distinct_same_key [of book_id "books st" b0 b] by simp
qed

lemma consistent_update:
  assumes "consistent st" "updateBook bid q st = Inr st'"
  shows "consistent st'"
proof -
  from assms(2) obtain b where b: "find_book st bid = Some b" "\<not> q < quantity b - available b"
    and st': "st' = st\<lparr>books := update_book bid
                       (\<lambda>b. b\<lparr>quantity := q, available := q - borrowedCount st bid\<rparr>) (books st)\<rparr>"
    by (auto simp: updateBook_def split: option.splits if_splits)
  from b(1) have bin: "b \<in> set (books st)" "book_id b = bid"
    using find_Some_set [of "\<lambda>b. book_id b = bid" "books st" b] by (auto simp: find_book_def)
  with assms(1) have "available b = quantity b - borrowedCount st bid"
    by (auto simp: consistent_def)
  with b(2) have ge: "0 \<le> q - borrowedCount st bid" by simp
  have bc: "\<And>x. borrowedCount st' x = borrowedCount st x"
    by (simp add: st' borrowedCount_def)
  have ids: "map book_id (books st') = map book_id (books st)"
    by (simp add: st' map_book_id_update_book)
  then have ids': "book_id ` set (books st') = book_id ` set (books st)"
    by (metis set_map)
  have nb: "next_book_id st' = next_book_id st" "borrow_records st' = borrow_records st"
    "next_record_id st' = next_record_id st"
    by (simp_all add: st')
  have books_ok: "\<forall>b' \<in> set (books st'). available b' = quantity b' - borrowedCount st' (book_id b')
                            \<and> 0 \<le> available b' \<and> book_id b' < next_book_id st'"
  proof
    fix b' assume "b' \<in> set (books st')"
    then obtain b0 where "b0 \<in> set (books st)"
      and "(book_id b0 = bid \<and> b' = b0\<lparr>quantity := q, available := q - borrowedCount st bid\<rparr>)
           \<or> (book_id b0 \<noteq> bid \<and> b' = b0)"
      using set_update_book [of b' bid _ "books st"] by (auto simp: st')
    with assms(1) ge show "available b' = quantity b' - borrowedCount st' (book_id b')
                            \<and> 0 \<le> available b' \<and> book_id b' < next_book_id st'"
      unfolding bc nb by (auto simp: consistent_def)
  qed
  have rest: "distinct (map book_id (books st')) \<and> distinct (map record_id (borrow_records st'))
     \<and> (\<forall>r \<in> set (borrow_records st'). record_id r < next_record_id st' \<and> book_ref r < next_book_id st'
           \<and> (loan_status r = Borrowed \<longrightarrow> book_ref r \<in> book_id ` set (books st')))"
    using assms(1) unfolding ids ids' nb consistent_def by blast
  from books_ok rest show ?thesis unfolding consistent_def by blast
qed

lemma consistent_borrow:
  assumes "consistent st" "borrow p bid name email now st = Inr st'"
  shows "consistent st'"
proof -
  let ?r = "\<lparr>record_id = next_record_id st, book_ref = bid,
                           borrower_name = name, borrower_email = email,
                           borrow_date = now, return_date = None, loan_status = Borrowed\<rparr>"
  from assms(2) obtain b where b: "find_book st bid = Some b" "\<not> available b \<le> 0"
    and st': "st' = st\<lparr>books := update_book bid (\<lambda>b. b\<lparr>available := available b - 1\<rparr>) (books st),
                       borrow_records := borrow_records st @ [?r],
                       next_record_id := Suc (next_record_id st)\<rparr>"
    by (auto simp: borrow_def split: option.splits if_splits)
  from b(1) have bin: "b \<in> set (books st)" "book_id b = bid"
    using find_Some_set [of "\<lambda>b. book_id b = bid" "books st" b] by (auto simp: find_book_def)
  from assms(1) have dist: "distinct (map book_id (books st))" by (simp add: consistent_def)
  have bc: "\<And>x. borrowedCount st' x = borrowedCount st x + (if x = bid then 1 else 0)"
    by (simp add: st' borrowedCount_def)
  have ids: "map book_id (books st') = map book_id (books st)"
    by (simp add: st' map_book_id_update_book)
  then have ids': "book_id ` set (books st') = book_id ` set (books st)"
    by (metis set_map)
  have nb: "next_book_id st' = next_book_id st"
    by (simp add: st')
  have books_ok: "\<forall>b' \<in> set (books st'). available b' = quantity b' - borrowedCount st' (book_id b')
                            \<and> 0 \<le> available b' \<and> book_id b' < next_book_id st'"
  proof
    fix b' assume "b' \<in> set (books st')"
    then obtain b0 where b0: "b0 \<in> set (books st)"
      and cases: "(book_id b0 = bid \<and> b' = b0\<lparr>available := available b0 - 1\<rparr>)
           \<or> (book_id b0 \<noteq> bid \<and> b' = b0)"
      using set_update_book [of b' bid _ "books st"] by (auto simp: st')
    from assms(1) b0 have inv0: "available b0 = quantity b0 - borrowedCount st (book_id b0)"
      "0 \<le> available b0" "book_id b0 < next_book_id st"
      by (auto simp: consistent_def)
    show "available b' = quantity b' - borrowedCount st' (book_id b')
                            \<and> 0 \<le> available b' \<and> book_id b' < next_book_id st'"
    proof (cases "book_id b0 = bid")
      case True
      with cases have b': "b' = b0\<lparr>available := available b0 - 1\<rparr>" by auto
      from True b0 dist b(1) have "b0 = b" by (rule_tac find_book_unique)
      with b(2) have "0 < available b0" by simp
      with inv0 True show ?thesis by (simp add: b' bc nb)
    next
      case False
      with cases have "b' = b0" by auto
      with False inv0 show ?thesis by (simp add: bc nb)
    qed
  qed
  have rest: "distinct (map book_id (books st')) \<and> distinct (map record_id (borrow_records st'))
     \<and> (\<forall>r \<in> set (borrow_records st'). record_id r < next_record_id st' \<and> book_ref r < next_book_id st'
           \<and> (loan_status r = Borrowed \<longrightarrow> book_ref r \<in> book_id ` set (books st')))"
    using assms(1) bin unfolding ids ids' nb consistent_def
    by (auto simp: st' less_Suc_eq)
  from books_ok rest show ?thesis unfolding consistent_def by blast
qed


lemma mark_returned_other:
  "\<forall>x \<in> set rs. record_id x \<noteq> rid \<Longrightarrow> map (\<lambda>x. if record_id x = rid then g x else x) rs = rs"
  by (induction rs) auto

lemma count_after_mark:
  assumes "distinct (map key rs)" "r \<in> set rs"
  shows "length (filter P (map (\<lambda>x. if key x = key r then g x else x) rs)) + (if P r then 1 else 0)
         = length (filter P rs) + (if P (g r) then 1 else (0::nat))"
  using assms
proof (induction rs)
  case Nil
  then show ?case by simp
next
  case (Cons x xs)
  define h where "h = (\<lambda>x. if key x = key r then g x else x)"
  show ?case
  proof (cases "key x = key r")
    case True
    with Cons.prems have xr: "x = r"
      using distinct_same_key [of key "x # xs" x r] by simp
    from Cons.prems(1) have "key x \<notin> key ` set xs"
      by simp
    with True have "\<forall>y \<in> set xs. key y \<noteq> key r"
      by (metis imageI)
    then have "map h xs = xs"
      unfolding h_def by (induction xs) auto
    moreover have "h x = g r" by (simp add: h_def xr)
    ultimately have "map h (x # xs) = g r # xs" by simp
    then have "length (filter P (map h (x # xs))) = (if P (g r) then 1 else 0) + length (filter P xs)"
      by simp
    then show ?thesis unfolding h_def xr by simp
  next
    case False
    with Cons.prems have "r \<in> set xs" "distinct (map key xs)" by auto
    then have IH: "length (filter P (map h xs)) + (if P r then 1 else 0)
         = length (filter P xs) + (if P (g r) then 1 else 0)"
      unfolding h_def by (rule Cons.IH [rotated])
    from False have "h x = x" by (simp add: h_def)
    then have "length (filter P (map h (x # xs))) = (if P x then 1 else 0) + length (filter P (map h xs))"
      by simp
    with IH have "length (filter P (map h (x # xs))) + (if P r then 1 else 0)
         = length (filter P (x # xs)) + (if P (g r) then 1 else 0)"
      by simp
    then show ?thesis unfolding h_def .
  qed
qed

lemma map_record_id_mark:
  "map record_id (map (\<lambda>x. if record_id x = rid then x\<lparr>loan_status := Returned, return_date := Some now\<rparr> else x) rs)
     = map record_id rs"
  by (induction rs) auto

lemma consistent_return:
  assumes "consistent st" "returnBook rid now st = Inr st'"
  shows "consistent st'"
proof -
  from assms(2) obtain r where r: "find_record st rid = Some r" "loan_status r \<noteq> Returned"
    and st': "st' = st\<lparr>borrow_records :=
                         map (\<lambda>x. if record_id x = rid
                                   then x\<lparr>loan_status := Returned, return_date := Some now\<rparr>
                                   else x) (borrow_records st),
                       books := update_book (book_ref r)
                                  (\<lambda>b. b\<lparr>available := available b + 1\<rparr>) (books st)\<rparr>"
    by (auto simp: returnBook_def split: option.splits if_splits)
  from r(1) have rin: "r \<in> set (borrow_records st)" "record_id r = rid"
    using find_Some_set [of "\<lambda>r. record_id r = rid" "borrow_records st" r]
    by (auto simp: find_record_def)
  from r(2) have rb: "loan_status r = Borrowed" by (cases "loan_status r") auto
  from assms(1) have dist: "distinct (map record_id (borrow_records st))"
    by (simp add: consistent_def)
  have bc: "\<And>x. borrowedCount st' x = borrowedCount st x - (if book_ref r = x then 1 else 0)"
  proof -
    fix x
    let ?P = "\<lambda>y. book_ref y = x \<and> loan_status y = Borrowed"
    let ?g = "\<lambda>y. y\<lparr>loan_status := Returned, return_date := Some now\<rparr>"
    have recs: "borrow_records st' = map (\<lambda>y. if record_id y = record_id r then ?g y else y)
                                       (borrow_records st)"
      by (simp add: st' rin(2))
    have "length (filter ?P (borrow_records st')) + (if ?P r then 1 else 0)
          = length (filter ?P (borrow_records st)) + (if ?P (?g r) then 1 else 0)"
      unfolding recs using dist rin(1) by (rule count_after_mark)
    with rb have "int (length (filter ?P (borrow_records st')))
          = int (length (filter ?P (borrow_records st))) - (if book_ref r = x then 1 else 0)"
      by (simp split: if_splits)
    then show "borrowedCount st' x = borrowedCount st x - (if book_ref r = x then 1 else 0)"
      unfolding borrowedCount_def .
  qed
  have ids: "map book_id (books st') = map book_id (books st)"
    by (simp add: st' map_book_id_update_book)
  then have ids': "book_id ` set (books st') = book_id ` set (books st)"
    by (metis set_map)
  have nb: "next_book_id st' = next_book_id st" "next_record_id st' = next_record_id st"
    by (simp_all add: st')
  have books_ok: "\<forall>b' \<in> set (books st'). available b' = quantity b' - borrowedCount st' (book_id b')
                            \<and> 0 \<le> available b' \<and> book_id b' < next_book_id st'"
  proof
    fix b' assume "b' \<in> set (books st')"
    then obtain b0 where b0: "b0 \<in> set (books st)"
      and cases: "(book_id b0 = book_ref r \<and> b' = b0\<lparr>available := available b0 + 1\<rparr>)
           \<or> (book_id b0 \<noteq> book_ref r \<and> b' = b0)"
      using set_update_book [of b' "book_ref r" _ "books st"] by (auto simp: st')
    from assms(1) b0 have inv0: "available b0 = quantity b0 - borrowedCount st (book_id b0)"
      "0 \<le> available b0" "book_id b0 < next_book_id st"
      by (auto simp: consistent_def)
    show "available b' = quantity b' - borrowedCount st' (book_id b')
                            \<and> 0 \<le> available b' \<and> book_id b' < next_book_id st'"
    proof (cases "book_id b0 = book_ref r")
      case True
      with cases have "b' = b0\<lparr>available := available b0 + 1\<rparr>" by auto
      with True inv0 show ?thesis by (simp add: bc nb)
    next
      case False
      with cases have "b' = b0" by auto
      with False inv0 show ?thesis by (simp add: bc nb)
    qed
  qed
  have recs: "\<forall>x \<in> set (borrow_records st'). record_id x < next_record_id st'
           \<and> book_ref x < next_book_id st'
           \<and> (loan_status x = Borrowed \<longrightarrow> book_ref x \<in> book_id ` set (books st'))"
  proof
    fix x assume "x \<in> set (borrow_records st')"
    then obtain y where y: "y \<in> set (borrow_records st)"
      and xy: "x = y\<lparr>loan_status := Returned, return_date := Some now\<rparr> \<or> x = y"
      by (auto simp: st' split: if_splits)
    from assms(1) y have "record_id y < next_record_id st" "book_ref y < next_book_id st"
      "loan_status y = Borrowed \<longrightarrow> book_ref y \<in> book_id ` set (books st)"
      unfolding consistent_def by blast+
    with xy show "record_id x < next_record_id st'
           \<and> book_ref x < next_book_id st'
           \<and> (loan_status x = Borrowed \<longrightarrow> book_ref x \<in> book_id ` set (books st'))"
      unfolding ids' nb by auto
  qed
  have "map record_id (borrow_records st') = map record_id (borrow_records st)"
    by (simp add: st' map_record_id_mark)
  with dist have d2: "distinct (map record_id (borrow_records st'))" by simp
  from assms(1) have d1: "distinct (map book_id (books st'))"
    unfolding ids consistent_def by blast
  from books_ok recs d1 d2 show ?thesis unfolding consistent_def by blast
qed

lemma consistent_delete:
  assumes "consistent st" "deleteBook bid st = Inr st'"
  shows "consistent st'"
proof -
  from assms(2) have none: "borrowedCount st bid = 0"
    and st': "st' = st\<lparr>books := filter (\<lambda>b. book_id b \<noteq> bid) (books st)\<rparr>"
    using borrowedCount_nonneg [of st bid]
    by (auto simp: deleteBook_def split: option.splits if_splits)
  have bc: "\<And>x. borrowedCount st' x = borrowedCount st x"
    by (simp add: st' borrowedCount_def)
  from none have noref: "\<forall>r \<in> set (borrow_records st). loan_status r = Borrowed \<longrightarrow> book_ref r \<noteq> bid"
    by (auto simp: borrowedCount_def filter_empty_conv)
  have books_ok: "\<forall>b' \<in> set (books st'). available b' = quantity b' - borrowedCount st' (book_id b')
                            \<and> 0 \<le> available b' \<and> book_id b' < next_book_id st'"
    using assms(1) unfolding bc consistent_def by (auto simp: st')
  have d1: "distinct (map book_id (books st'))"
    using assms(1) by (simp add: st' consistent_def distinct_map_filter)
  have rest: "distinct (map record_id (borrow_records st'))
     \<and> (\<forall>r \<in> set (borrow_records st'). record_id r < next_record_id st' \<and> book_ref r < next_book_id st'
           \<and> (loan_status r = Borrowed \<longrightarrow> book_ref r \<in> book_id ` set (books st')))"
  proof (intro conjI ballI impI)
    show "distinct (map record_id (borrow_records st'))"
      using assms(1) by (simp add: st' consistent_def)
  next
    fix r assume "r \<in> set (borrow_records st')"
    with assms(1) show "record_id r < next_record_id st'" "book_ref r < next_book_id st'"
      by (auto simp: st' consistent_def)
  next
    fix r assume rin: "r \<in> set (borrow_records st')" and rb: "loan_status r = Borrowed"
    then have "r \<in> set (borrow_records st)" by (simp add: st')
    with assms(1) rb noref obtain b where "b \<in> set (books st)" "book_id b = book_ref r" "book_ref r \<noteq> bid"
      unfolding consistent_def by force
    then have "b \<in> set (books st')" by (simp add: st')
    with \<open>book_id b = book_ref r\<close> show "book_ref r \<in> book_id ` set (books st')" by force
  qed
  from books_ok d1 rest show ?thesis unfolding consistent_def by blast
qed

lemma consistent_step: "consistent st \<Longrightarrow> consistent (step p st op)"
proof (cases op)
  case (CreateBook t a i q now)
  assume "consistent st"
  then show ?thesis
    using consistent_create [of st p t a i q now] CreateBook
    by (auto simp: step_def split: sum.splits)
next
  case (UpdateBook bid q)
  assume "consistent st"
  then show ?thesis
    using consistent_update [of st bid q] UpdateBook
    by (auto simp: step_def split: sum.splits)
next
  case (Borrow bid name email now)
  assume "consistent st"
  then show ?thesis
    using consistent_borrow [of st p bid name email now] Borrow
    by (auto simp: step_def split: sum.splits)
next
  case (ReturnBook rid now)
  assume "consistent st"
  then show ?thesis
    using consistent_return [of st rid now] ReturnBook
    by (auto simp: step_def split: sum.splits)
next
  case (DeleteBook bid)
  assume "consistent st"
  then show ?thesis
    using consistent_delete [of st bid] DeleteBook
    by (auto simp: step_def split: sum.splits)
qed

lemma consistent_run_ops: "consistent st \<Longrightarrow> consistent (run_ops p ops st)"
  unfolding run_ops_def
  by (induction ops arbitrary: st) (simp_all add: consistent_step)

lemma consistent_bounds:
  "consistent st \<Longrightarrow> b \<in> set (books st) \<Longrightarrow> 0 \<le> available b \<and> available b \<le> quantity b"
  using borrowedCount_nonneg [of st "book_id b"] by (auto simp: consistent_def)


section \<open>The claims about the cache and the request helper\<close>

text \<open>
  C1. Every successful mutating request (method POST, PUT or DELETE) through
  \<^verbatim>\<open>apiRequest\<close> leaves the cache purged before the call resolves: of the keys
  containing \<^verbatim>\<open>/books\<close> and \<^verbatim>\<open>/statistics\<close> if the endpoint contains \<^verbatim>\<open>/books\<close>,
  and of those containing \<^verbatim>\<open>/borrow-records\<close> as well if it contains
  \<^verbatim>\<open>/borrow-records\<close>. The code does so when the body of the answer parses
  (\<open>parsed_mutation_invalidates\<close>), and not otherwise: the purge comes after
  \<^verbatim>\<open>await response.json()\<close>, though it uses nothing of the parsed body. A DELETE of
  \<^verbatim>\<open>/books/7\<close> answered with 204 No Content, whose body is empty, ends in the
  \<^verbatim>\<open>catch\<close> block; the deleted book stays in the cached list and in the cached
  statistics.
\<close>

theorem mutation_no_content_keeps_cache:
  "is_mutation delete_options
   \<and> str_includes ''/books/7'' ''/books''
   \<and> ok no_content
   \<and> returned (apiRequest (answers (Resolves no_content) 2000) logged_in ''/books/7''
        delete_options) = None
   \<and> ui (apiRequest (answers (Resolves no_content) 2000) logged_in ''/books/7''
        delete_options) = [Alert ''Connection error: Unexpected end of JSON input'' ''error'']
   \<and> str_includes books_url ''/books''
   \<and> str_includes statistics_url ''/statistics''
   \<and> cache_get (apiCache (client_after
        (apiRequest (answers (Resolves no_content) 2000) logged_in ''/books/7''
           delete_options))) books_url = Some books_entry
   \<and> cache_get (apiCache (client_after
        (apiRequest (answers (Resolves no_content) 2000) logged_in ''/books/7''
           delete_options))) statistics_url = Some statistics_entry"
  by (simp add: api_defs example_defs delete_options_def no_content_def)

text \<open>
  C2 (as amended). A GET to a URL whose cache entry is unexpired both when the request
  is built and when the answer is handled, answered with 304 Not Modified, resolves with
  exactly the payload of the entry under the literal response
  \<^verbatim>\<open>{ status: 200, ok: true }\<close>, and leaves the client state as it was: the entry keeps
  its payload, its ETag and also its timestamp, which is not refreshed. When the entry
  was created by an earlier GET of the same request, the payload is identical to the one
  that GET returned to its caller, and the timestamp is still the time at which that GET
  stored the entry.
\<close>

theorem not_modified_serves_cached:
  assumes "is_get options"
    and "cache_get (apiCache s) (API_BASE_URL @ endpoint) = Some cached"
    and "age_seconds (now_lookup e) (timestamp cached) \<le> DEFAULT_MAX_AGE"
    and "age_seconds (now_304 e) (timestamp cached) \<le> DEFAULT_MAX_AGE"
    and "build_request e s endpoint options = (fullUrl, config, c1)"
    and "fetch e fullUrl config = Resolves response"
    and "status response = 304"
  shows "returned (apiRequest e s endpoint options) = Some (Literal 200 True, data cached)
    \<and> client_after (apiRequest e s endpoint options) = s
    \<and> cache_get (apiCache (client_after (apiRequest e s endpoint options))) fullUrl = Some cached
    \<and> (\<forall>e0 s0 fullUrl0 config0 c0 response0 result0 tag0.
          s = client_after (apiRequest e0 s0 endpoint options)
          \<and> build_request e0 s0 endpoint options = (fullUrl0, config0, c0)
          \<and> fetch e0 fullUrl0 config0 = Resolves response0 \<and> ok response0
          \<and> json response0 = Inr result0
          \<and> resp_headers response0 ''ETag'' = Some tag0 \<and> truthy tag0
          \<longrightarrow> returned (apiRequest e0 s0 endpoint options) = Some (Fetched response0, result0)
              \<and> returned (apiRequest e s endpoint options) = Some (Literal 200 True, result0)
              \<and> cached = \<lparr>data = result0, etag = tag0, timestamp = now_store e0\<rparr>)"
proof -
  have "build_request e s endpoint options =
          (API_BASE_URL @ endpoint,
           options\<lparr>headers := if truthy (etag cached)
                       then (base_headers s options)(''If-None-Match'' \<mapsto> etag cached)
                       else base_headers s options\<rparr>,
           apiCache s)"
    using assms(1-3)
    by (simp add: build_request_def conditional_headers_def getCachedResponse_fresh Let_def)
  with assms(5) have eqs: "fullUrl = API_BASE_URL @ endpoint" "c1 = apiCache s" by simp_all
  have hit: "getCachedResponse fullUrl DEFAULT_MAX_AGE (now_304 e) c1 = (Some cached, apiCache s)"
    unfolding eqs using assms(2,4) by (rule getCachedResponse_fresh)
  have "apiRequest e s endpoint options =
          \<lparr>client_after = s\<lparr>apiCache := apiCache s\<rparr>,
           returned = Some (Literal 200 True, data cached),
           sent = [(fullUrl, config)], ui = []\<rparr>"
    using assms(5,6,7) hit by (simp add: apiRequest_def)
  then have one: "returned (apiRequest e s endpoint options) = Some (Literal 200 True, data cached)"
    "client_after (apiRequest e s endpoint options) = s"
    "cache_get (apiCache (client_after (apiRequest e s endpoint options))) fullUrl = Some cached"
    using assms(2) eqs by simp_all
  have two: "\<forall>e0 s0 fullUrl0 config0 c0 response0 result0 tag0.
          s = client_after (apiRequest e0 s0 endpoint options)
          \<and> build_request e0 s0 endpoint options = (fullUrl0, config0, c0)
          \<and> fetch e0 fullUrl0 config0 = Resolves response0 \<and> ok response0
          \<and> json response0 = Inr result0
          \<and> resp_headers response0 ''ETag'' = Some tag0 \<and> truthy tag0
          \<longrightarrow> returned (apiRequest e0 s0 endpoint options) = Some (Fetched response0, result0)
              \<and> returned (apiRequest e s endpoint options) = Some (Literal 200 True, result0)
              \<and> cached = \<lparr>data = result0, etag = tag0, timestamp = now_store e0\<rparr>"
  proof (intro allI impI)
    fix e0 s0 fullUrl0 config0 c0 response0 result0 tag0
    assume h: "s = client_after (apiRequest e0 s0 endpoint options)
          \<and> build_request e0 s0 endpoint options = (fullUrl0, config0, c0)
          \<and> fetch e0 fullUrl0 config0 = Resolves response0 \<and> ok response0
          \<and> json response0 = Inr result0
          \<and> resp_headers response0 ''ETag'' = Some tag0 \<and> truthy tag0"
    then have r0: "build_request e0 s0 endpoint options = (fullUrl0, config0, c0)" by simp
    have u0: "fullUrl0 = API_BASE_URL @ endpoint"
      using build_request_cache [OF r0] by simp
    have first: "apiRequest e0 s0 endpoint options =
           \<lparr>client_after =
              s0\<lparr>apiCache :=
                  cache_set fullUrl0 \<lparr>data = result0, etag = tag0, timestamp = now_store e0\<rparr> c0\<rparr>,
            returned = Some (Fetched response0, result0),
            sent = [(fullUrl0, config0)], ui = []\<rparr>"
      using r0 assms(1) h by (intro fresh_get_run) simp_all
    with h have "apiCache s = cache_set fullUrl0
        \<lparr>data = result0, etag = tag0, timestamp = now_store e0\<rparr> c0"
      by simp
    then have "cache_get (apiCache s) (API_BASE_URL @ endpoint)
        = Some \<lparr>data = result0, etag = tag0, timestamp = now_store e0\<rparr>"
      by (simp add: cache_get_set u0)
    with assms(2) have c: "cached = \<lparr>data = result0, etag = tag0, timestamp = now_store e0\<rparr>"
      by simp
    from first one(1) c
    show "returned (apiRequest e0 s0 endpoint options) = Some (Fetched response0, result0)
              \<and> returned (apiRequest e s endpoint options) = Some (Literal 200 True, result0)
              \<and> cached = \<lparr>data = result0, etag = tag0, timestamp = now_store e0\<rparr>"
      by simp
  qed
  from one two show ?thesis by blast
qed

text \<open>
  The amended C2 at two calls in a row: a GET that fetches the book list with the ETag
  \<^verbatim>\<open>v2\<close> and stores it at time 2200, and the same GET again, answered with 304. Both
  calls give the caller the same payload, and the second leaves the client as the first
  left it.
\<close>

theorem not_modified_serves_cached_witness:
  "returned (apiRequest (answers (Resolves fresh_list) 2000) logged_in ''/books'' get_options)
     = Some (Fetched fresh_list, ''{books: 3}'')
   \<and> returned (apiRequest (answers (Resolves not_modified) 3000)
        (client_after (apiRequest (answers (Resolves fresh_list) 2000) logged_in ''/books''
           get_options))
        ''/books'' get_options)
     = Some (Literal 200 True, ''{books: 3}'')
   \<and> client_after (apiRequest (answers (Resolves not_modified) 3000)
        (client_after (apiRequest (answers (Resolves fresh_list) 2000) logged_in ''/books''
           get_options))
        ''/books'' get_options)
     = client_after (apiRequest (answers (Resolves fresh_list) 2000) logged_in ''/books''
         get_options)"
proof -
  let ?earlier = "answers (Resolves fresh_list) 2000"
  let ?e = "answers (Resolves not_modified) 3000"
  let ?first = "apiRequest ?earlier logged_in ''/books'' get_options"
  let ?entry = "\<lparr>data = ''{books: 3}'', etag = ''v2'', timestamp = 2200\<rparr>"
  have s1: "apiCache (client_after ?first)
              = [(books_url, ?entry), (statistics_url, statistics_entry),
                 (records_url, records_entry)]"
    by (simp add: api_defs example_defs)
  have g: "is_get get_options"
    by (simp add: is_get_def truthy_opt_def get_options_def)
  have c: "cache_get (apiCache (client_after ?first)) (API_BASE_URL @ ''/books'') = Some ?entry"
    by (simp add: s1 cache_get_def books_url_def API_BASE_URL_def)
  have a1: "age_seconds (now_lookup ?e) (timestamp ?entry) \<le> DEFAULT_MAX_AGE"
    and a2: "age_seconds (now_304 ?e) (timestamp ?entry) \<le> DEFAULT_MAX_AGE"
    by (simp_all add: age_seconds_def answers_def DEFAULT_MAX_AGE_def)
  obtain fullUrl config c1
    where r: "build_request ?e (client_after ?first) ''/books'' get_options = (fullUrl, config, c1)"
    by (cases "build_request ?e (client_after ?first) ''/books'' get_options")
  have f: "fetch ?e fullUrl config = Resolves not_modified"
    by (simp add: answers_def)
  have st: "status not_modified = 304" by (simp add: not_modified_def)
  obtain fullUrl0 config0 c0
    where r0: "build_request ?earlier logged_in ''/books'' get_options = (fullUrl0, config0, c0)"
    by (cases "build_request ?earlier logged_in ''/books'' get_options")
  have h0: "fetch ?earlier fullUrl0 config0 = Resolves fresh_list \<and> ok fresh_list
      \<and> json fresh_list = Inr ''{books: 3}''
      \<and> resp_headers fresh_list ''ETag'' = Some ''v2'' \<and> truthy ''v2''"
    by (simp add: answers_def ok_def fresh_list_def truthy_def)
  note not_modified_serves_cached[OF g c a1 a2 r f st]
  then have same: "client_after (apiRequest ?e (client_after ?first) ''/books'' get_options)
        = client_after ?first"
    and earlier: "client_after ?first = client_after (apiRequest ?earlier logged_in ''/books'' get_options)
          \<and> build_request ?earlier logged_in ''/books'' get_options = (fullUrl0, config0, c0)
          \<and> fetch ?earlier fullUrl0 config0 = Resolves fresh_list \<and> ok fresh_list
          \<and> json fresh_list = Inr ''{books: 3}''
          \<and> resp_headers fresh_list ''ETag'' = Some ''v2'' \<and> truthy ''v2''
          \<longrightarrow> returned (apiRequest ?earlier logged_in ''/books'' get_options)
                = Some (Fetched fresh_list, ''{books: 3}'')
              \<and> returned (apiRequest ?e (client_after ?first) ''/books'' get_options)
                = Some (Literal 200 True, ''{books: 3}'')
              \<and> ?entry = \<lparr>data = ''{books: 3}'', etag = ''v2'', timestamp = now_store ?earlier\<rparr>"
    by blast+
  from earlier r0 h0 same show ?thesis by simp
qed

text \<open>
  C2 as stated fails on the timestamp: the entry stored at time 1000 and found fresh at
  times 2000 and 2100 still carries the timestamp 1000 after the 304 answer.
\<close>

theorem not_modified_timestamp_counterexample:
  "is_get get_options
   \<and> cache_get (apiCache logged_in) books_url = Some books_entry
   \<and> timestamp books_entry = 1000
   \<and> now_lookup (answers (Resolves not_modified) 2000 :: string env) = 2000
   \<and> now_304 (answers (Resolves not_modified) 2000 :: string env) = 2100
   \<and> returned (apiRequest (answers (Resolves not_modified) 2000) logged_in ''/books''
        get_options) = Some (Literal 200 True, data books_entry)
   \<and> map_option timestamp
        (cache_get (apiCache (client_after
           (apiRequest (answers (Resolves not_modified) 2000) logged_in ''/books'' get_options)))
         books_url) = Some 1000"
  by (simp add: api_defs example_defs)

text \<open>
  C3. Every response with status 401, whatever the URL of the request, leaves the cache
  map empty and the token removed, and the call resolves with \<^verbatim>\<open>null\<close>. The code does
  so when the body of the 401 parses (\<open>parsed_unauthorized_clears_everything\<close>), and
  not otherwise: \<^verbatim>\<open>response.json()\<close> is awaited before the status is looked at,
  though the 401 branch uses nothing of the parsed body. A 401 with a body that is not
  JSON ends in the \<^verbatim>\<open>catch\<close> block as a connection error, with every cache entry
  and the token still in place.
\<close>

theorem unauthorized_not_json_keeps_session:
  "status unauthorized_no_json = 401
   \<and> returned (apiRequest (answers (Resolves unauthorized_no_json) 2000) logged_in
        ''/statistics'' get_options) = None
   \<and> ui (apiRequest (answers (Resolves unauthorized_no_json) 2000) logged_in
        ''/statistics'' get_options) = [Alert ''Connection error: Unexpected token <'' ''error'']
   \<and> apiCache (client_after
        (apiRequest (answers (Resolves unauthorized_no_json) 2000) logged_in ''/statistics''
           get_options))
       = apiCache logged_in
   \<and> apiCache logged_in \<noteq> []
   \<and> getToken (client_after
        (apiRequest (answers (Resolves unauthorized_no_json) 2000) logged_in ''/statistics''
           get_options))
       = Some ''tok''"
  by (simp add: api_defs example_defs)



text \<open>
  C5. A GET to a URL whose cache entry is unexpired at the lookup and has a truthy ETag
  sends exactly one request, to the full URL, with the header \<^verbatim>\<open>If-None-Match\<close> set to
  that ETag (over any such header of the caller). The round trip is made all the same,
  and what the call resolves to is decided by the answer of the network to that request:
  \<^verbatim>\<open>null\<close> if \<^verbatim>\<open>fetch\<close> rejects, the response and payload of the network if it
  answers with a body that parses (and a status other than 304 and 401), and the cached
  payload only if the network answers 304 while the entry is still unexpired.
\<close>

theorem conditional_get_round_trip:
  assumes "is_get options"
    and "cache_get (apiCache s) (API_BASE_URL @ endpoint) = Some cached"
    and "age_seconds (now_lookup e) (timestamp cached) \<le> DEFAULT_MAX_AGE"
    and "truthy (etag cached)"
  shows "sent (apiRequest e s endpoint options) =
           [(API_BASE_URL @ endpoint,
             options\<lparr>headers := (base_headers s options)(''If-None-Match'' \<mapsto> etag cached)\<rparr>)]
    \<and> headers (snd (hd (sent (apiRequest e s endpoint options)))) ''If-None-Match''
         = Some (etag cached)
    \<and> (\<forall>msg. fetch e (API_BASE_URL @ endpoint)
                 (options\<lparr>headers := (base_headers s options)(''If-None-Match'' \<mapsto> etag cached)\<rparr>)
               = Rejects msg
             \<longrightarrow> returned (apiRequest e s endpoint options) = None)
    \<and> (\<forall>response result.
          fetch e (API_BASE_URL @ endpoint)
            (options\<lparr>headers := (base_headers s options)(''If-None-Match'' \<mapsto> etag cached)\<rparr>)
            = Resolves response
          \<and> status response \<noteq> 304 \<and> status response \<noteq> 401 \<and> json response = Inr result
          \<longrightarrow> returned (apiRequest e s endpoint options) = Some (Fetched response, result))
    \<and> (\<forall>response.
          fetch e (API_BASE_URL @ endpoint)
            (options\<lparr>headers := (base_headers s options)(''If-None-Match'' \<mapsto> etag cached)\<rparr>)
            = Resolves response
          \<and> status response = 304
          \<and> age_seconds (now_304 e) (timestamp cached) \<le> DEFAULT_MAX_AGE
          \<longrightarrow> returned (apiRequest e s endpoint options) = Some (Literal 200 True, data cached))"
proof -
  let ?config = "options\<lparr>headers := (base_headers s options)(''If-None-Match'' \<mapsto> etag cached)\<rparr>"
  let ?url = "API_BASE_URL @ endpoint"
  have req: "build_request e s endpoint options = (?url, ?config, apiCache s)"
    using assms
    by (simp add: build_request_def conditional_headers_def getCachedResponse_fresh Let_def)
  have 1: "sent (apiRequest e s endpoint options) = [(?url, ?config)]"
    using req by (rule sent_apiRequest)
  have 2: "\<forall>msg. fetch e ?url ?config = Rejects msg
               \<longrightarrow> returned (apiRequest e s endpoint options) = None"
    using req by (simp add: apiRequest_def connection_error_def)
  have 3: "\<forall>response result.
          fetch e ?url ?config = Resolves response
          \<and> status response \<noteq> 304 \<and> status response \<noteq> 401 \<and> json response = Inr result
          \<longrightarrow> returned (apiRequest e s endpoint options) = Some (Fetched response, result)"
    using parsed_answer_returned [OF req] by blast
  have 4: "\<forall>response.
          fetch e ?url ?config = Resolves response \<and> status response = 304
          \<and> age_seconds (now_304 e) (timestamp cached) \<le> DEFAULT_MAX_AGE
          \<longrightarrow> returned (apiRequest e s endpoint options) = Some (Literal 200 True, data cached)"
  proof (intro allI impI)
    fix response
    assume h: "fetch e ?url ?config = Resolves response \<and> status response = 304
          \<and> age_seconds (now_304 e) (timestamp cached) \<le> DEFAULT_MAX_AGE"
    then have "getCachedResponse ?url DEFAULT_MAX_AGE (now_304 e) (apiCache s)
        = (Some cached, apiCache s)"
      using assms(2) by (simp add: getCachedResponse_fresh)
    with req h show "returned (apiRequest e s endpoint options)
        = Some (Literal 200 True, data cached)"
      by (simp add: apiRequest_def)
  qed
  from 1 2 3 4 show ?thesis by simp
qed

text \<open>
  C5 with the fresh book list in the cache and three networks: one that is down, one
  that sends a new list, one that answers 304. The request carries the validator
  \<^verbatim>\<open>v1\<close> each time; the caller gets \<^verbatim>\<open>null\<close>, the new list, and the cached list.
\<close>

theorem conditional_get_round_trip_witness:
  "map (\<lambda>(url, config). (url, headers config ''If-None-Match''))
     (sent (apiRequest (answers (Rejects ''Failed to fetch'') 2000) logged_in ''/books''
        get_options)) = [(books_url, Some ''v1'')]
   \<and> returned (apiRequest (answers (Rejects ''Failed to fetch'') 2000) logged_in ''/books''
        get_options) = None
   \<and> returned (apiRequest (answers (Resolves fresh_list) 2000) logged_in ''/books''
        get_options) = Some (Fetched fresh_list, ''{books: 3}'')
   \<and> returned (apiRequest (answers (Resolves not_modified) 2000) logged_in ''/books''
        get_options) = Some (Literal 200 True, ''{books: 2}'')"
proof -
  let ?down = "answers (Rejects ''Failed to fetch'') 2000 :: string env"
  let ?new = "answers (Resolves fresh_list) 2000"
  let ?same = "answers (Resolves not_modified) 2000"
  have g: "is_get get_options"
    by (simp add: is_get_def truthy_opt_def get_options_def)
  have c: "cache_get (apiCache logged_in) (API_BASE_URL @ ''/books'') = Some books_entry"
    by (simp add: cache_get_def logged_in_def books_url_def API_BASE_URL_def)
  have a: "\<And>r. age_seconds (now_lookup (answers r 2000 :: string env)) (timestamp books_entry)
             \<le> DEFAULT_MAX_AGE"
    and a': "age_seconds (now_304 ?same) (timestamp books_entry) \<le> DEFAULT_MAX_AGE"
    by (simp_all add: age_seconds_def answers_def books_entry_def DEFAULT_MAX_AGE_def)
  have t: "truthy (etag books_entry)"
    by (simp add: truthy_def books_entry_def)
  have f: "\<And>r url config. fetch (answers r 2000 :: string env) url config = r"
    by (simp add: answers_def)
  have u: "API_BASE_URL @ ''/books'' = books_url" "etag books_entry = ''v1''"
    "data books_entry = ''{books: 2}''"
    by (simp_all add: API_BASE_URL_def books_url_def books_entry_def)
  have k: "status fresh_list \<noteq> 304 \<and> status fresh_list \<noteq> 401
           \<and> json fresh_list = Inr ''{books: 3}''"
    "status not_modified = 304"
    by (simp_all add: fresh_list_def not_modified_def)
  from conditional_get_round_trip[OF g c a t, of "Rejects ''Failed to fetch''"] f u
  have down: "map (\<lambda>(url, config). (url, headers config ''If-None-Match''))
       (sent (apiRequest ?down logged_in ''/books'' get_options)) = [(books_url, Some ''v1'')]
     \<and> returned (apiRequest ?down logged_in ''/books'' get_options) = None"
    by simp
  from conditional_get_round_trip[OF g c a t, of "Resolves fresh_list"] f k(1)
  have new: "returned (apiRequest ?new logged_in ''/books'' get_options)
      = Some (Fetched fresh_list, ''{books: 3}'')"
    by simp
  from conditional_get_round_trip[OF g c a t, of "Resolves not_modified"] f k(2) a' u(3)
  have same: "returned (apiRequest ?same logged_in ''/books'' get_options)
      = Some (Literal 200 True, ''{books: 2}'')"
    by simp
  from down new same show ?thesis by simp
qed

text \<open>
  C6 (as amended). The call creates or overwrites a cache entry exactly when a GET
  receives an \<^verbatim>\<open>ok\<close> response (status 200 to 299) whose body parses and whose
  \<^verbatim>\<open>ETag\<close> header is present and not empty. The entry is then stored under the full
  URL with the payload, the ETag and the time of storing, and no other key changes. In
  every other case (no ETag, a body that does not parse, a status outside 200 to 299, a
  request that is not a GET, such as POST, PUT and DELETE, or a network failure) every
  entry of the cache after the call was there, unchanged, before it.
\<close>

theorem fresh_get_is_cached:
  assumes "build_request e s endpoint options = (fullUrl, config, c1)"
  shows "(\<forall>response result tag.
            is_get options \<and> fetch e fullUrl config = Resolves response \<and> ok response
            \<and> json response = Inr result \<and> resp_headers response ''ETag'' = Some tag \<and> truthy tag
            \<longrightarrow> cache_get (apiCache (client_after (apiRequest e s endpoint options))) fullUrl
                   = Some \<lparr>data = result, etag = tag, timestamp = now_store e\<rparr>
                \<and> (\<forall>k. k \<noteq> fullUrl \<longrightarrow>
                      cache_get (apiCache (client_after (apiRequest e s endpoint options))) k
                        = cache_get (apiCache s) k))
    \<and> (\<not> (is_get options \<and> (\<exists>response result tag.
              fetch e fullUrl config = Resolves response \<and> ok response
              \<and> json response = Inr result \<and> resp_headers response ''ETag'' = Some tag \<and> truthy tag))
         \<longrightarrow> (\<forall>k v. cache_get (apiCache (client_after (apiRequest e s endpoint options))) k = Some v
                 \<longrightarrow> cache_get (apiCache s) k = Some v))"
proof (intro conjI allI impI)
  fix response result tag
  assume h: "is_get options \<and> fetch e fullUrl config = Resolves response \<and> ok response
            \<and> json response = Inr result \<and> resp_headers response ''ETag'' = Some tag \<and> truthy tag"
  then have st: "status response \<noteq> 304" "status response \<noteq> 401" using ok_status by auto
  from h have nm: "\<not> is_mutation options" using mutation_not_get by blast
  have run: "apiRequest e s endpoint options =
      after_json e (s\<lparr>apiCache := c1\<rparr>) [(fullUrl, config)] endpoint fullUrl options response"
    using assms h st(1) by (simp add: apiRequest_parsed)
  have cache: "apiCache (client_after (apiRequest e s endpoint options))
        = cache_set fullUrl \<lparr>data = result, etag = tag, timestamp = now_store e\<rparr> c1"
    using h st(2) nm
    by (simp add: run after_json_def cache_fresh_def invalidate_def setCachedResponse_def)
  show "cache_get (apiCache (client_after (apiRequest e s endpoint options))) fullUrl
                   = Some \<lparr>data = result, etag = tag, timestamp = now_store e\<rparr>"
    by (simp add: cache cache_get_set)
  fix k assume "k \<noteq> fullUrl"
  then show "cache_get (apiCache (client_after (apiRequest e s endpoint options))) k
                        = cache_get (apiCache s) k"
    using build_request_cache [OF assms]
    by (auto simp: cache cache_get_set cache_get_delete)
next
  fix k v
  assume n: "\<not> (is_get options \<and> (\<exists>response result tag.
              fetch e fullUrl config = Resolves response \<and> ok response
              \<and> json response = Inr result \<and> resp_headers response ''ETag'' = Some tag \<and> truthy tag))"
    and kv: "cache_get (apiCache (client_after (apiRequest e s endpoint options))) k = Some v"
  have shrink1: "\<And>k v. cache_get c1 k = Some v \<Longrightarrow> cache_get (apiCache s) k = Some v"
    using build_request_cache [OF assms]
    by (auto simp: cache_get_delete split: if_splits)
  have shrink2: "\<And>c k v.
      cache_get (snd (getCachedResponse fullUrl DEFAULT_MAX_AGE (now_304 e) c)) k = Some v
      \<Longrightarrow> cache_get c k = Some v"
    subgoal for c k v
      using getCachedResponse_cache [of fullUrl DEFAULT_MAX_AGE "now_304 e" c]
      by (auto simp: cache_get_delete split: if_splits)
    done
  have shrink3: "\<And>c k v. cache_get (invalidate endpoint options c) k = Some v
      \<Longrightarrow> cache_get c k = Some v"
    by (auto simp: invalidate_def cache_get_clearCache split: if_splits)
  have after: "\<And>s' response. fetch e fullUrl config = Resolves response \<Longrightarrow>
      cache_get (apiCache (client_after
        (after_json e s' [(fullUrl, config)] endpoint fullUrl options response))) k = Some v
      \<Longrightarrow> cache_get (apiCache s') k = Some v"
    subgoal for s' response
      using n shrink3 [of "apiCache s'" k v]
      by (auto simp: after_json_def connection_error_def cache_fresh_def cache_get_clearCache_all
            truthy_def split: sum.splits if_splits option.splits)
    done
  have "cache_get c1 k = Some v"
  proof (cases "fetch e fullUrl config")
    case (Rejects msg)
    with kv assms show ?thesis by (simp add: apiRequest_def connection_error_def)
  next
    case (Resolves response)
    show ?thesis
    proof (cases "status response = 304")
      case False
      with kv assms Resolves after [of response "s\<lparr>apiCache := c1\<rparr>"] show ?thesis
        by (simp add: apiRequest_def)
    next
      case True
      obtain hit c2 where g: "getCachedResponse fullUrl DEFAULT_MAX_AGE (now_304 e) c1 = (hit, c2)"
        by (cases "getCachedResponse fullUrl DEFAULT_MAX_AGE (now_304 e) c1")
      have "cache_get c2 k = Some v"
      proof (cases hit)
        case None
        with kv assms Resolves True g after [of response "s\<lparr>apiCache := c2\<rparr>"] show ?thesis
          by (simp add: apiRequest_def)
      next
        case (Some cached)
        with kv assms Resolves True g show ?thesis by (simp add: apiRequest_def)
      qed
      with g shrink2 [of c1 k v] show ?thesis by simp
    qed
  qed
  then show "cache_get (apiCache s) k = Some v" by (rule shrink1)
qed

text \<open>
  The amended C6 at two requests: a fresh book list with the ETag \<^verbatim>\<open>v2\<close>, stored at
  time 2200 over the old entry; and a POST, after which the one entry left is the record
  list that was there before.
\<close>

theorem fresh_get_is_cached_witness:
  "cache_get (apiCache (client_after
      (apiRequest (answers (Resolves fresh_list) 2000) logged_in ''/books'' get_options)))
     books_url = Some \<lparr>data = ''{books: 3}'', etag = ''v2'', timestamp = 2200\<rparr>
   \<and> cache_get (apiCache (client_after
      (apiRequest (answers (Resolves fresh_list) 2000) logged_in ''/books'' get_options)))
     statistics_url = Some statistics_entry
   \<and> \<not> is_get post_options
   \<and> cache_get (apiCache (client_after
      (apiRequest (answers (Resolves created) 2000) logged_in ''/books'' post_options)))
     records_url = Some records_entry
   \<and> cache_get (apiCache logged_in) records_url = Some records_entry"
proof -
  let ?e = "answers (Resolves fresh_list) 2000"
  let ?p = "answers (Resolves created) 2000"
  obtain fullUrl config c1
    where r: "build_request ?e logged_in ''/books'' get_options = (fullUrl, config, c1)"
    by (cases "build_request ?e logged_in ''/books'' get_options")
  then have u: "fullUrl = books_url"
    using build_request_cache [OF r] by (simp add: API_BASE_URL_def books_url_def)
  have h: "is_get get_options \<and> fetch ?e fullUrl config = Resolves fresh_list \<and> ok fresh_list
      \<and> json fresh_list = Inr ''{books: 3}'' \<and> resp_headers fresh_list ''ETag'' = Some ''v2''
      \<and> truthy ''v2''"
    by (simp add: is_get_def truthy_opt_def get_options_def answers_def ok_def fresh_list_def
          truthy_def)
  have ne: "statistics_url \<noteq> fullUrl"
    by (simp add: u statistics_url_def books_url_def)
  have old: "cache_get (apiCache logged_in) statistics_url = Some statistics_entry"
    by (simp add: cache_get_def logged_in_def statistics_url_def books_url_def)
  have t: "now_store ?e = 2200" by (simp add: answers_def)
  obtain fullUrl' config' c1'
    where r': "build_request ?p logged_in ''/books'' post_options = (fullUrl', config', c1')"
    by (cases "build_request ?p logged_in ''/books'' post_options")
  have ng: "\<not> is_get post_options"
    by (simp add: is_get_def truthy_opt_def truthy_def post_options_def)
  have kept: "cache_get (apiCache (client_after
      (apiRequest ?p logged_in ''/books'' post_options))) records_url = Some records_entry"
    by (simp add: api_defs example_defs)
  note fresh_get_is_cached [OF r]
  then have stored: "is_get get_options \<and> fetch ?e fullUrl config = Resolves fresh_list
      \<and> ok fresh_list \<and> json fresh_list = Inr ''{books: 3}''
      \<and> resp_headers fresh_list ''ETag'' = Some ''v2'' \<and> truthy ''v2''
      \<longrightarrow> cache_get (apiCache (client_after (apiRequest ?e logged_in ''/books'' get_options)))
            fullUrl = Some \<lparr>data = ''{books: 3}'', etag = ''v2'', timestamp = now_store ?e\<rparr>
          \<and> (\<forall>k. k \<noteq> fullUrl \<longrightarrow>
                cache_get (apiCache (client_after (apiRequest ?e logged_in ''/books'' get_options))) k
                  = cache_get (apiCache logged_in) k)"
    by blast
  with h have "cache_get (apiCache (client_after (apiRequest ?e logged_in ''/books'' get_options)))
            fullUrl = Some \<lparr>data = ''{books: 3}'', etag = ''v2'', timestamp = now_store ?e\<rparr>"
    and "\<forall>k. k \<noteq> fullUrl \<longrightarrow>
                cache_get (apiCache (client_after (apiRequest ?e logged_in ''/books'' get_options))) k
                  = cache_get (apiCache logged_in) k"
    by blast+
  with ne old have "cache_get (apiCache (client_after (apiRequest ?e logged_in ''/books'' get_options)))
          books_url = Some \<lparr>data = ''{books: 3}'', etag = ''v2'', timestamp = 2200\<rparr>
      \<and> cache_get (apiCache (client_after (apiRequest ?e logged_in ''/books'' get_options)))
          statistics_url = Some statistics_entry"
    unfolding t u by simp
  moreover from fresh_get_is_cached [OF r'] ng kept
  have "cache_get (apiCache logged_in) records_url = Some records_entry"
    by blast
  ultimately show ?thesis using ng kept by simp
qed

text \<open>
  C6 as stated fails for a successful GET response that carries an ETag and a body that
  does not parse: the call ends in the \<^verbatim>\<open>catch\<close> block and stores nothing.
\<close>

theorem fresh_get_counterexample:
  "is_get get_options
   \<and> ok tagged_no_json
   \<and> resp_headers tagged_no_json ''ETag'' = Some ''v2''
   \<and> apiCache (client_after
        (apiRequest (answers (Resolves tagged_no_json) 2000)
           \<lparr>apiCache = [], localStorage = Map.empty\<rparr> ''/books'' get_options)) = []"
  by (simp add: api_defs example_defs)





text \<open>
  C9. A response with status 304 that arrives when the cache holds no unexpired entry
  for the request's URL (none at all, or one older than 60 seconds at that moment) is
  not answered from the cache: the call goes on to parse the body, which for a 304 is
  empty and does not parse, and so resolves with \<^verbatim>\<open>null\<close> after the connection-error
  alert. This holds for a GET and for any other method.
\<close>

theorem not_modified_without_entry:
  assumes "build_request e s endpoint options = (fullUrl, config, c1)"
    and "fetch e fullUrl config = Resolves response"
    and "status response = 304"
    and "json response = Inl msg"
    and "case cache_get c1 fullUrl of
           None \<Rightarrow> True
         | Some x \<Rightarrow> age_seconds (now_304 e) (timestamp x) > DEFAULT_MAX_AGE"
  shows "returned (apiRequest e s endpoint options) = None
    \<and> ui (apiRequest e s endpoint options) = [Alert (''Connection error: '' @ msg) ''error'']"
  using assms
  by (auto simp: apiRequest_def getCachedResponse_def after_json_def connection_error_def
      split: option.splits)

text \<open>
  C9 at a GET sent at time 60900: the book list of time 1000 is 59.9 seconds old and
  goes out as validator; the 304 answer is handled at time 61100, when the entry is 60.1
  seconds old.
\<close>

theorem not_modified_without_entry_witness:
  "is_get get_options
   \<and> map (\<lambda>(url, config). headers config ''If-None-Match'')
        (sent (apiRequest ((answers (Resolves not_modified) 60900)\<lparr>now_304 := 61100\<rparr>)
           logged_in ''/books'' get_options)) = [Some ''v1'']
   \<and> returned (apiRequest ((answers (Resolves not_modified) 60900)\<lparr>now_304 := 61100\<rparr>)
        logged_in ''/books'' get_options) = None
   \<and> ui (apiRequest ((answers (Resolves not_modified) 60900)\<lparr>now_304 := 61100\<rparr>)
        logged_in ''/books'' get_options)
       = [Alert ''Connection error: Unexpected end of JSON input'' ''error'']"
proof -
  let ?e = "(answers (Resolves not_modified) 60900)\<lparr>now_304 := 61100\<rparr>"
  have g: "is_get get_options"
    by (simp add: is_get_def truthy_opt_def get_options_def)
  have r: "build_request ?e logged_in ''/books'' get_options =
             (books_url,
              get_options\<lparr>headers :=
                (base_headers logged_in get_options)(''If-None-Match'' \<mapsto> ''v1'')\<rparr>,
              apiCache logged_in)"
    by (simp add: api_defs example_defs)
  have f: "\<And>url config. fetch ?e url config = Resolves not_modified"
    by (simp add: answers_def)
  have st: "status not_modified = 304" "json not_modified = Inl ''Unexpected end of JSON input''"
    by (simp_all add: not_modified_def)
  have old: "case cache_get (apiCache logged_in) books_url of
           None \<Rightarrow> True
         | Some x \<Rightarrow> age_seconds (now_304 ?e) (timestamp x) > DEFAULT_MAX_AGE"
    by (simp add: cache_get_def logged_in_def books_url_def books_entry_def age_seconds_def
          answers_def DEFAULT_MAX_AGE_def)
  have s: "sent (apiRequest ?e logged_in ''/books'' get_options) =
             [(books_url, get_options\<lparr>headers :=
                (base_headers logged_in get_options)(''If-None-Match'' \<mapsto> ''v1'')\<rparr>)]"
    using r by (rule sent_apiRequest)
  from not_modified_without_entry [OF r f st old] g s show ?thesis by simp
qed

text \<open>
  C10. For every pattern string \<open>p\<close> and every cache, \<^verbatim>\<open>clearCache(p)\<close> leaves exactly
  the entries whose key does not contain \<open>p\<close> as a substring, in their order and each
  with its payload, ETag and timestamp untouched; every entry whose key contains \<open>p\<close>
  is removed. (The empty pattern is contained in every key, and the call empties the
  map.)
\<close>

theorem clearCache_pattern_exact:
  "clearCache (Some p) c = filter (\<lambda>(key, entry). \<not> str_includes key p) c
   \<and> (\<forall>key. str_includes key p \<longleftrightarrow> (\<exists>u v. key = u @ p @ v))"
  by (simp add: clearCache_filter str_includes_iff)

theorem clearCache_pattern_exact_witness:
  "clearCache (Some ''/books'') (apiCache logged_in)
     = [(statistics_url, statistics_entry), (records_url, records_entry)]"
proof -
  have "filter (\<lambda>(key, entry). \<not> str_includes key ''/books'') (apiCache logged_in)
          = [(statistics_url, statistics_entry), (records_url, records_entry)]"
    by (simp add: logged_in_def books_url_def statistics_url_def records_url_def)
  with clearCache_pattern_exact [of "''/books''" "apiCache logged_in"] show ?thesis by simp
qed

section \<open>The claim about the inventory\<close>

text \<open>
  C8. Starting from the empty store, after every sequence of inventory operations
  (\<open>createBook\<close>, \<open>updateBook\<close>, \<open>borrow\<close>, \<open>returnBook\<close>, \<open>deleteBook\<close>, each
  succeeding or failing), every book in the store has \<open>0 \<le> available \<le> quantity\<close>.
\<close>

theorem available_within_quantity:
  "\<forall>b \<in> set (books (run_ops p ops empty_store)). 0 \<le> available b \<and> available b \<le> quantity b"
  using consistent_bounds [OF consistent_run_ops [OF consistent_empty]] by blast

text \<open>
  C8 at a run that creates a book with two copies, lends both, is refused a third loan,
  takes one copy back and raises the quantity to five: four of five copies are
  available.
\<close>

theorem available_within_quantity_witness:
  "map (\<lambda>b. (quantity b, available b)) (books (run_ops demo_policy demo_ops empty_store))
     = [(5, 4)]
   \<and> list_all (\<lambda>b. 0 \<le> available b \<and> available b \<le> quantity b)
        (books (run_ops demo_policy demo_ops empty_store))"
proof -
  have run: "map (\<lambda>b. (quantity b, available b))
               (books (run_ops demo_policy demo_ops empty_store)) = [(5, 4)]"
    by (simp add: run_ops_def demo_ops_def demo_policy_def empty_store_def step_def
          createBook_def borrow_def returnBook_def updateBook_def valid_isbn_def is_digit_def
          find_book_def find_record_def update_book_def borrowedCount_def)
  from available_within_quantity [of demo_policy demo_ops]
  have "list_all (\<lambda>b. 0 \<le> available b \<and> available b \<le> quantity b)
          (books (run_ops demo_policy demo_ops empty_store))"
    by (simp add: list_all_iff)
  with run show ?thesis by simp
qed


end
